theory Spec2Isabelle
  imports Main "HOL-Library.Signed_Division"
begin

section \<open>The class template CircularBuffer (lab1b/CircularBuffer.h)\<close>

text \<open>
  The class has five data members: \<^verbatim>\<open>int capacity, size; T *buffer; int start, end;\<close>.
  The object is a record of them. The pointer \<^verbatim>\<open>buffer\<close> is either \<^verbatim>\<open>nullptr\<close>
  (\<open>None\<close>) or owns a heap array (\<open>Some xs\<close>, the array's cells in order). No two
  objects ever share an array (every constructor and the assignment allocate a fresh one,
  \<^verbatim>\<open>swap\<close> exchanges the two pointers), so the array is stored by value.
  Names that are taken in Isabelle carry the suffix \<open>_cb\<close>: \<open>size_cb\<close>, \<open>end_cb\<close>,
  \<open>back_cb\<close>, \<open>empty_cb\<close>, \<open>rotate_cb\<close>, \<open>insert_cb\<close>; the operators \<^verbatim>\<open>[]\<close>, \<^verbatim>\<open>=\<close>,
  \<^verbatim>\<open>==\<close> and \<^verbatim>\<open>!=\<close> are \<open>subscript\<close>, \<open>assign\<close>, \<open>equal_cb\<close> and \<open>not_equal_cb\<close>.

  C++ \<^verbatim>\<open>int\<close> (32 bits) is modelled by \<open>int\<close>. Signed overflow is undefined
  behaviour, not wrap-around. As long as \<open>0 \<le> size \<le> capacity\<close> and the two markers lie
  in \<open>[-1, capacity)\<close>, the only expressions of the class whose value can leave the range
  of \<^verbatim>\<open>int\<close> are the index sums, and every one of them is the left operand of a
  \<^verbatim>\<open>%\<close>: the model checks the range there (\<open>c_rem\<close>).
\<close>

record 'a CircularBuffer =
  capacity :: int
  size_cb :: int
  buffer :: "'a list option"
  start :: int
  end_cb :: int

text \<open>The four standard exceptions the class throws.\<close>

datatype exn = invalid_argument | out_of_range | overflow_error | underflow_error

text \<open>
  What a call does. A \<^verbatim>\<open>const\<close> member function or a constructor returns a value,
  throws, or has undefined behaviour (an access outside the array or through the null
  pointer, a remainder by zero, an index sum beyond \<^verbatim>\<open>int\<close>). A mutating member function
  leaves the object in a new
  state; when it throws, the object stays in the state it had reached at the
  \<^verbatim>\<open>throw\<close>, which the model records.
\<close>

datatype 'r outcome = Returns 'r | Throws exn | Undefined

datatype 's effect = Done 's | Thrown exn 's | Undef

subsection \<open>Memory and arithmetic primitives\<close>

definition INT_MAX :: int where
  "INT_MAX = 2147483647"

definition INT_MIN :: int where
  "INT_MIN = - 2147483648"

text \<open>
  \<^verbatim>\<open>a % b\<close> on \<^verbatim>\<open>int\<close>: the remainder of the division truncated towards zero.
  Undefined behaviour (\<open>None\<close>) when \<open>b\<close> is 0, when the quotient overflows, and when
  the value of the operand \<open>a\<close>, a sum of \<^verbatim>\<open>int\<close>s, does not fit \<^verbatim>\<open>int\<close>.
\<close>

definition c_rem :: "int \<Rightarrow> int \<Rightarrow> int option" where
  "c_rem a b =
     (if b = 0 \<or> a < INT_MIN \<or> INT_MAX < a \<or> (a = INT_MIN \<and> b = - 1) then None
      else Some (a smod b))"

text \<open>
  \<^verbatim>\<open>new T[n]\<close>: a fresh array of \<open>n\<close> default-initialised cells. \<open>dT\<close> stands for the
  content of such a cell (the default-constructed \<^verbatim>\<open>T\<close>; for \<^verbatim>\<open>int\<close> whatever the
  memory held). Reading a cell that was never written yields \<open>dT\<close>; the model does not
  count that read as undefined behaviour, which it is for \<^verbatim>\<open>int\<close>. Allocation by
  \<^verbatim>\<open>new\<close> is taken to succeed, and the class asks for a negative length in no state with
  \<open>capacity \<ge> 0\<close>.
\<close>

definition new_array :: "'a \<Rightarrow> int \<Rightarrow> 'a list" where
  "new_array dT n = replicate (nat n) dT"

text \<open>\<^verbatim>\<open>p[k]\<close> read: \<open>None\<close> is undefined behaviour (null pointer, or \<open>k\<close> outside the array).\<close>

definition load :: "'a list option \<Rightarrow> int \<Rightarrow> 'a option" where
  "load p k =
     (case p of
        None \<Rightarrow> None
      | Some xs \<Rightarrow> if 0 \<le> k \<and> k < int (length xs) then Some (xs ! nat k) else None)"

text \<open>\<^verbatim>\<open>p[k] = v\<close>: the array after the write; \<open>None\<close> is undefined behaviour.\<close>

definition store :: "'a list option \<Rightarrow> int \<Rightarrow> 'a \<Rightarrow> 'a list option" where
  "store p k v =
     (case p of
        None \<Rightarrow> None
      | Some xs \<Rightarrow> if 0 \<le> k \<and> k < int (length xs) then Some (xs[nat k := v]) else None)"

text \<open>
  \<^verbatim>\<open>realloc(p, n)\<close> as \<^verbatim>\<open>set_capacity\<close> calls it: \<open>n\<close> is a number of bytes, so the
  block holds \<open>n div sizeof(T)\<close> whole cells afterwards, the old cells first. The C library
  may refuse the request (\<open>granted = False\<close>) and return the null pointer. The source
  assigns the \<^verbatim>\<open>void *\<close> result to \<^verbatim>\<open>buffer\<close> without a cast and applies \<^verbatim>\<open>realloc\<close> to
  memory from \<^verbatim>\<open>new[]\<close>; the model reads the call as the C library performs it.
\<close>

definition realloc :: "nat \<Rightarrow> 'a \<Rightarrow> bool \<Rightarrow> 'a list option \<Rightarrow> int \<Rightarrow> 'a list option" where
  "realloc sizeof_T dT granted p n =
     (if granted then
        (let k = nat n div sizeof_T;
             old = (case p of None \<Rightarrow> [] | Some xs \<Rightarrow> xs)
         in Some (take k old @ replicate (k - length old) dT))
      else None)"

fun ub :: "'r option \<Rightarrow> 'r outcome" where
  "ub None = Undefined"
| "ub (Some r) = Returns r"

fun ub_eff :: "'s option \<Rightarrow> 's effect" where
  "ub_eff None = Undef"
| "ub_eff (Some s) = Done s"

subsection \<open>Constructors\<close>

definition CircularBuffer_default :: "'a CircularBuffer" where
  "CircularBuffer_default =
     \<lparr>capacity = 0, size_cb = 0, buffer = None, start = - 1, end_cb = - 1\<rparr>"

definition CircularBuffer_capacity :: "'a \<Rightarrow> int \<Rightarrow> 'a CircularBuffer outcome" where
  "CircularBuffer_capacity dT cap =
     (if cap \<le> 0 then Throws invalid_argument
      else Returns \<lparr>capacity = cap, size_cb = 0, buffer = Some (new_array dT cap),
                     start = - 1, end_cb = - 1\<rparr>)"

text \<open>\<^verbatim>\<open>for (int i = 0; i < capacity; i++) buffer[i] = elem;\<close> (\<open>None\<close>: undefined behaviour)\<close>

function fill_loop :: "'a CircularBuffer \<Rightarrow> 'a \<Rightarrow> int \<Rightarrow> 'a CircularBuffer option" where
  "fill_loop cb elem i =
     (if i < capacity cb then
        (case store (buffer cb) i elem of
           None \<Rightarrow> None
         | Some xs \<Rightarrow> fill_loop (cb\<lparr>buffer := Some xs\<rparr>) elem (i + 1))
      else Some cb)"
  by pat_completeness auto
termination
  by (relation "measure (\<lambda>(cb, elem, i). nat (capacity cb - i))") auto

declare fill_loop.simps [simp del]

text \<open>The delegating constructor: \<^verbatim>\<open>CircularBuffer(capacity)\<close> runs first and may throw.\<close>

definition CircularBuffer_fill :: "'a \<Rightarrow> int \<Rightarrow> 'a \<Rightarrow> 'a CircularBuffer outcome" where
  "CircularBuffer_fill dT cap elem =
     (case CircularBuffer_capacity dT cap of
        Returns cb \<Rightarrow>
          (case fill_loop cb elem 0 of
             None \<Rightarrow> Undefined
           | Some cb' \<Rightarrow>
               Returns (cb'\<lparr>size_cb := cap, start := 0, end_cb := cap - 1\<rparr>))
      | Throws e \<Rightarrow> Throws e
      | Undefined \<Rightarrow> Undefined)"

text \<open>
  The copy loop of the copy constructor and of the assignment:
  \<^verbatim>\<open>buffer[(start + i) % capacity] = cb.buffer[(cb.start + i) % capacity]\<close> for
  \<open>i\<close> below the size, which both objects share by then; both remainders are by the
  capacity of \<^verbatim>\<open>this\<close>.
\<close>

function copy_loop ::
  "'a CircularBuffer \<Rightarrow> 'a CircularBuffer \<Rightarrow> int \<Rightarrow> 'a CircularBuffer option" where
  "copy_loop this cb i =
     (if i < size_cb cb then
        (case c_rem (start this + i) (capacity this) of
           None \<Rightarrow> None
         | Some kd \<Rightarrow>
             (case c_rem (start cb + i) (capacity this) of
                None \<Rightarrow> None
              | Some ks \<Rightarrow>
                  (case load (buffer cb) ks of
                     None \<Rightarrow> None
                   | Some v \<Rightarrow>
                       (case store (buffer this) kd v of
                          None \<Rightarrow> None
                        | Some xs \<Rightarrow> copy_loop (this\<lparr>buffer := Some xs\<rparr>) cb (i + 1)))))
      else Some this)"
  by pat_completeness auto
termination
  by (relation "measure (\<lambda>(this, cb, i). nat (size_cb cb - i))") auto

declare copy_loop.simps [simp del]

definition CircularBuffer_copy :: "'a \<Rightarrow> 'a CircularBuffer \<Rightarrow> 'a CircularBuffer outcome" where
  "CircularBuffer_copy dT cb =
     ub (copy_loop
           \<lparr>capacity = capacity cb, size_cb = size_cb cb,
            buffer = Some (new_array dT (capacity cb)),
            start = start cb, end_cb = end_cb cb\<rparr> cb 0)"

subsection \<open>Element access\<close>

text \<open>\<^verbatim>\<open>operator[]\<close>: \<^verbatim>\<open>buffer[(start + i) % capacity]\<close>, unchecked.\<close>

definition subscript :: "'a CircularBuffer \<Rightarrow> int \<Rightarrow> 'a outcome" where
  "subscript cb i =
     (case c_rem (start cb + i) (capacity cb) of
        None \<Rightarrow> Undefined
      | Some k \<Rightarrow> ub (load (buffer cb) k))"

definition at :: "'a CircularBuffer \<Rightarrow> int \<Rightarrow> 'a outcome" where
  "at cb i =
     (if i < 0 \<or> i \<ge> size_cb cb then Throws out_of_range
      else (case c_rem (start cb + i) (capacity cb) of
              None \<Rightarrow> Undefined
            | Some k \<Rightarrow> ub (load (buffer cb) k)))"

definition front :: "'a CircularBuffer \<Rightarrow> 'a outcome" where
  "front cb = ub (load (buffer cb) (start cb))"

definition back_cb :: "'a CircularBuffer \<Rightarrow> 'a outcome" where
  "back_cb cb = ub (load (buffer cb) (end_cb cb))"

subsection \<open>Size and capacity\<close>

definition get_size :: "'a CircularBuffer \<Rightarrow> int" where
  "get_size cb = size_cb cb"

definition empty_cb :: "'a CircularBuffer \<Rightarrow> bool" where
  "empty_cb cb \<longleftrightarrow> size_cb cb = 0"

definition full :: "'a CircularBuffer \<Rightarrow> bool" where
  "full cb \<longleftrightarrow> size_cb cb = capacity cb"

definition reserve :: "'a CircularBuffer \<Rightarrow> int" where
  "reserve cb = capacity cb - size_cb cb"

definition get_capacity :: "'a CircularBuffer \<Rightarrow> int" where
  "get_capacity cb = capacity cb"

definition is_linearized :: "'a CircularBuffer \<Rightarrow> bool" where
  "is_linearized cb \<longleftrightarrow> start cb = 0 \<and> end_cb cb = size_cb cb - 1"

subsection \<open>Linearisation and rotation\<close>

text \<open>
  The loop of \<^verbatim>\<open>linearize\<close> and of \<^verbatim>\<open>rotate\<close>:
  \<^verbatim>\<open>for (int i = 0; i < size; ++i) new_buffer[i] = buffer[(start + i) % capacity];\<close>
\<close>

function relay_loop :: "'a CircularBuffer \<Rightarrow> 'a list \<Rightarrow> int \<Rightarrow> 'a list option" where
  "relay_loop cb new_buffer i =
     (if i < size_cb cb then
        (case c_rem (start cb + i) (capacity cb) of
           None \<Rightarrow> None
         | Some k \<Rightarrow>
             (case load (buffer cb) k of
                None \<Rightarrow> None
              | Some v \<Rightarrow>
                  (case store (Some new_buffer) i v of
                     None \<Rightarrow> None
                   | Some xs \<Rightarrow> relay_loop cb xs (i + 1))))
      else Some new_buffer)"
  by pat_completeness auto
termination
  by (relation "measure (\<lambda>(cb, new_buffer, i). nat (size_cb cb - i))") auto

declare relay_loop.simps [simp del]

text \<open>\<^verbatim>\<open>linearize\<close> returns a pointer and changes the object: the result is the pair.\<close>

definition linearize ::
  "'a \<Rightarrow> 'a CircularBuffer \<Rightarrow> ('a list option \<times> 'a CircularBuffer) effect" where
  "linearize dT cb =
     (if size_cb cb = 0 then Done (None, cb)
      else (case relay_loop cb (new_array dT (size_cb cb)) 0 of
              None \<Rightarrow> Undef
            | Some xs \<Rightarrow>
                Done (Some xs,
                      cb\<lparr>start := 0, end_cb := size_cb cb - 1, buffer := Some xs\<rparr>)))"

text \<open>
  \<^verbatim>\<open>rotate\<close> compares the logical index \<^verbatim>\<open>new_begin\<close> with the physical index
  \<^verbatim>\<open>start\<close>, computes \<^verbatim>\<open>distance\<close> (\<^verbatim>\<open>new_begin - start\<close>, plus \<^verbatim>\<open>size\<close> when
  negative) and never reads it: the loop copies the elements in their old order.
\<close>

definition rotate_cb :: "'a \<Rightarrow> 'a CircularBuffer \<Rightarrow> int \<Rightarrow> 'a CircularBuffer effect" where
  "rotate_cb dT cb new_begin =
     (if new_begin < 0 \<or> new_begin \<ge> size_cb cb then Thrown out_of_range cb
      else if new_begin = start cb then Done cb
      else (case relay_loop cb (new_array dT (capacity cb)) 0 of
              None \<Rightarrow> Undef
            | Some xs \<Rightarrow>
                Done (cb\<lparr>start := 0, end_cb := size_cb cb - 1, buffer := Some xs\<rparr>)))"

subsection \<open>Insertion and removal at the ends\<close>

definition push_back :: "'a CircularBuffer \<Rightarrow> 'a \<Rightarrow> 'a CircularBuffer effect" where
  "push_back cb item =
     (if full cb then Thrown overflow_error cb
      else (case c_rem (end_cb cb + 1) (capacity cb) of
              None \<Rightarrow> Undef
            | Some e \<Rightarrow>
                (case store (buffer cb) e item of
                   None \<Rightarrow> Undef
                 | Some xs \<Rightarrow>
                     Done (cb\<lparr>end_cb := e, buffer := Some xs,
                              start := (if size_cb cb = 0 then 0 else start cb),
                              size_cb := size_cb cb + 1\<rparr>))))"

definition push_front :: "'a CircularBuffer \<Rightarrow> 'a \<Rightarrow> 'a CircularBuffer effect" where
  "push_front cb item =
     (if full cb then Thrown overflow_error cb
      else (case c_rem (start cb - 1 + capacity cb) (capacity cb) of
              None \<Rightarrow> Undef
            | Some s \<Rightarrow>
                (case store (buffer cb) s item of
                   None \<Rightarrow> Undef
                 | Some xs \<Rightarrow>
                     Done (cb\<lparr>buffer := Some xs,
                              start := (if size_cb cb = 0 then 0 else s),
                              size_cb := size_cb cb + 1\<rparr>))))"

text \<open>
  In \<^verbatim>\<open>pop_back\<close> and \<^verbatim>\<open>pop_front\<close> the statement \<^verbatim>\<open>start, end = -1, -1;\<close> is a
  comma expression: it assigns \<open>-1\<close> to \<^verbatim>\<open>end\<close> and leaves \<^verbatim>\<open>start\<close> as it is.
\<close>

definition pop_back :: "'a CircularBuffer \<Rightarrow> 'a CircularBuffer effect" where
  "pop_back cb =
     (if empty_cb cb then Thrown underflow_error cb
      else (case c_rem (end_cb cb - 1 + capacity cb) (capacity cb) of
              None \<Rightarrow> Undef
            | Some e \<Rightarrow>
                Done (cb\<lparr>end_cb := (if size_cb cb - 1 = 0 then - 1 else e),
                         size_cb := size_cb cb - 1\<rparr>)))"

definition pop_front :: "'a CircularBuffer \<Rightarrow> 'a CircularBuffer effect" where
  "pop_front cb =
     (if empty_cb cb then Thrown underflow_error cb
      else (case c_rem (start cb + 1) (capacity cb) of
              None \<Rightarrow> Undef
            | Some s \<Rightarrow>
                Done (cb\<lparr>start := s,
                         end_cb := (if size_cb cb - 1 = 0 then - 1 else end_cb cb),
                         size_cb := size_cb cb - 1\<rparr>)))"

subsection \<open>Capacity and size changes\<close>

text \<open>
  \<^verbatim>\<open>set_capacity\<close> assigns \<^verbatim>\<open>capacity\<close>, then overwrites \<^verbatim>\<open>buffer\<close> with what
  \<^verbatim>\<open>realloc(buffer, new_capacity)\<close> returns, and only then tests the pointer; \<^verbatim>\<open>size\<close>,
  \<^verbatim>\<open>start\<close> and \<^verbatim>\<open>end\<close> are not touched.
\<close>

definition set_capacity ::
  "nat \<Rightarrow> 'a \<Rightarrow> bool \<Rightarrow> 'a CircularBuffer \<Rightarrow> int \<Rightarrow> 'a CircularBuffer effect" where
  "set_capacity sizeof_T dT granted cb new_capacity =
     (if new_capacity \<le> 0 then Thrown invalid_argument cb
      else (case realloc sizeof_T dT granted (buffer cb) new_capacity of
              None \<Rightarrow> Thrown out_of_range (cb\<lparr>capacity := new_capacity, buffer := None\<rparr>)
            | Some xs \<Rightarrow> Done (cb\<lparr>capacity := new_capacity, buffer := Some xs\<rparr>)))"

text \<open>\<^verbatim>\<open>for (int i = size; i < new_size; ++i) push_back(item);\<close>\<close>

function resize_grow ::
  "'a CircularBuffer \<Rightarrow> int \<Rightarrow> 'a \<Rightarrow> int \<Rightarrow> 'a CircularBuffer effect" where
  "resize_grow cb new_size item i =
     (if i < new_size then
        (case push_back cb item of
           Done cb' \<Rightarrow> resize_grow cb' new_size item (i + 1)
         | Thrown e cb' \<Rightarrow> Thrown e cb'
         | Undef \<Rightarrow> Undef)
      else Done cb)"
  by pat_completeness auto
termination
  by (relation "measure (\<lambda>(cb, new_size, item, i). nat (new_size - i))") auto

declare resize_grow.simps [simp del]

text \<open>\<^verbatim>\<open>for (int i = size - 1; i >= new_size; --i) pop_back();\<close>\<close>

function resize_shrink :: "'a CircularBuffer \<Rightarrow> int \<Rightarrow> int \<Rightarrow> 'a CircularBuffer effect" where
  "resize_shrink cb new_size i =
     (if i \<ge> new_size then
        (case pop_back cb of
           Done cb' \<Rightarrow> resize_shrink cb' new_size (i - 1)
         | Thrown e cb' \<Rightarrow> Thrown e cb'
         | Undef \<Rightarrow> Undef)
      else Done cb)"
  by pat_completeness auto
termination
  by (relation "measure (\<lambda>(cb, new_size, i). nat (i - new_size + 1))") auto

declare resize_shrink.simps [simp del]

definition resize :: "'a CircularBuffer \<Rightarrow> int \<Rightarrow> 'a \<Rightarrow> 'a CircularBuffer effect" where
  "resize cb new_size item =
     (if new_size < 0 \<or> new_size > capacity cb then Thrown out_of_range cb
      else if new_size > size_cb cb then resize_grow cb new_size item (size_cb cb)
      else if new_size < size_cb cb then resize_shrink cb new_size (size_cb cb - 1)
      else Done cb)"

subsection \<open>Assignment and swap\<close>

text \<open>
  \<^verbatim>\<open>operator=\<close>; \<open>same\<close> tells whether \<^verbatim>\<open>this == &cb\<close>, in which case nothing is done.
\<close>

definition assign ::
  "'a \<Rightarrow> bool \<Rightarrow> 'a CircularBuffer \<Rightarrow> 'a CircularBuffer \<Rightarrow> 'a CircularBuffer effect" where
  "assign dT same this cb =
     (if same then Done this
      else ub_eff (copy_loop
             \<lparr>capacity = capacity cb, size_cb = size_cb cb,
              buffer = Some (new_array dT (capacity cb)),
              start = start cb, end_cb = end_cb cb\<rparr> cb 0))"

text \<open>\<^verbatim>\<open>swap\<close> exchanges the two \<^verbatim>\<open>buffer\<close> pointers; the result is \<^verbatim>\<open>(*this, cb)\<close>.\<close>

definition swap ::
  "'a CircularBuffer \<Rightarrow> 'a CircularBuffer \<Rightarrow> 'a CircularBuffer \<times> 'a CircularBuffer" where
  "swap this cb = (this\<lparr>buffer := buffer cb\<rparr>, cb\<lparr>buffer := buffer this\<rparr>)"

subsection \<open>Insertion and removal inside the buffer\<close>

text \<open>
  \<^verbatim>\<open>for (int i = size - 1; i >= pos; --i)
     buffer[(start + i + 1) % capacity] = buffer[(start + i) % capacity];\<close>
\<close>

function insert_loop :: "'a CircularBuffer \<Rightarrow> int \<Rightarrow> int \<Rightarrow> 'a CircularBuffer option" where
  "insert_loop cb pos i =
     (if i \<ge> pos then
        (case c_rem (start cb + i + 1) (capacity cb) of
           None \<Rightarrow> None
         | Some kd \<Rightarrow>
             (case c_rem (start cb + i) (capacity cb) of
                None \<Rightarrow> None
              | Some ks \<Rightarrow>
                  (case load (buffer cb) ks of
                     None \<Rightarrow> None
                   | Some v \<Rightarrow>
                       (case store (buffer cb) kd v of
                          None \<Rightarrow> None
                        | Some xs \<Rightarrow> insert_loop (cb\<lparr>buffer := Some xs\<rparr>) pos (i - 1)))))
      else Some cb)"
  by pat_completeness auto
termination
  by (relation "measure (\<lambda>(cb, pos, i). nat (i - pos + 1))") auto

declare insert_loop.simps [simp del]

text \<open>\<^verbatim>\<open>insert\<close> does not assign \<^verbatim>\<open>end\<close>.\<close>

definition insert_cb :: "'a CircularBuffer \<Rightarrow> int \<Rightarrow> 'a \<Rightarrow> 'a CircularBuffer effect" where
  "insert_cb cb pos item =
     (if pos < 0 \<or> pos > size_cb cb then Thrown out_of_range cb
      else if full cb then Thrown overflow_error cb
      else (case insert_loop cb pos (size_cb cb - 1) of
              None \<Rightarrow> Undef
            | Some cb' \<Rightarrow>
                (case c_rem (start cb' + pos) (capacity cb') of
                   None \<Rightarrow> Undef
                 | Some k \<Rightarrow>
                     (case store (buffer cb') k item of
                        None \<Rightarrow> Undef
                      | Some xs \<Rightarrow>
                          Done (cb'\<lparr>buffer := Some xs, size_cb := size_cb cb' + 1\<rparr>)))))"

text \<open>
  \<^verbatim>\<open>for (int i = last + 1; i < size; ++i)
     buffer[(start + i - (last - first + 1)) % capacity] = buffer[(start + i) % capacity];\<close>
\<close>

function erase_loop ::
  "'a CircularBuffer \<Rightarrow> int \<Rightarrow> int \<Rightarrow> int \<Rightarrow> 'a CircularBuffer option" where
  "erase_loop cb first' last' i =
     (if i < size_cb cb then
        (case c_rem (start cb + i - (last' - first' + 1)) (capacity cb) of
           None \<Rightarrow> None
         | Some kd \<Rightarrow>
             (case c_rem (start cb + i) (capacity cb) of
                None \<Rightarrow> None
              | Some ks \<Rightarrow>
                  (case load (buffer cb) ks of
                     None \<Rightarrow> None
                   | Some v \<Rightarrow>
                       (case store (buffer cb) kd v of
                          None \<Rightarrow> None
                        | Some xs \<Rightarrow>
                            erase_loop (cb\<lparr>buffer := Some xs\<rparr>) first' last' (i + 1)))))
      else Some cb)"
  by pat_completeness auto
termination
  by (relation "measure (\<lambda>(cb, first', last', i). nat (size_cb cb - i))") auto

declare erase_loop.simps [simp del]

definition erase :: "'a CircularBuffer \<Rightarrow> int \<Rightarrow> int \<Rightarrow> 'a CircularBuffer effect" where
  "erase cb first' last' =
     (if first' < 0 \<or> last' \<ge> size_cb cb \<or> first' > last' then Thrown out_of_range cb
      else (case erase_loop cb first' last' (last' + 1) of
              None \<Rightarrow> Undef
            | Some cb' \<Rightarrow>
                (case c_rem (end_cb cb' - (last' - first' + 1) + capacity cb') (capacity cb') of
                   None \<Rightarrow> Undef
                 | Some e \<Rightarrow>
                     Done (cb'\<lparr>size_cb := size_cb cb' - (last' - first' + 1), end_cb := e\<rparr>))))"

definition clear :: "'a CircularBuffer \<Rightarrow> 'a CircularBuffer" where
  "clear cb = cb\<lparr>size_cb := 0, start := 0, end_cb := 0\<rparr>"

subsection \<open>Comparison\<close>

text \<open>
  \<^verbatim>\<open>operator==\<close> adds the value \<^verbatim>\<open>a.front()\<close> to the loop index, so it is only
  instantiated for an arithmetic \<^verbatim>\<open>T\<close>; the tests use \<^verbatim>\<open>int\<close>. The loop:
  \<^verbatim>\<open>if (a[(a.front() + i) % a.get_capacity()] != b[(b.front() + i) % b.get_capacity()])
     return false;\<close>
\<close>

definition probe :: "int CircularBuffer \<Rightarrow> int \<Rightarrow> int outcome" where
  "probe a i =
     (case front a of
        Returns f \<Rightarrow>
          (case c_rem (f + i) (get_capacity a) of
             None \<Rightarrow> Undefined
           | Some k \<Rightarrow> subscript a k)
      | Throws e \<Rightarrow> Throws e
      | Undefined \<Rightarrow> Undefined)"

function eq_loop :: "int CircularBuffer \<Rightarrow> int CircularBuffer \<Rightarrow> int \<Rightarrow> bool outcome" where
  "eq_loop a b i =
     (if i < get_size a then
        (case probe a i of
           Returns x \<Rightarrow>
             (case probe b i of
                Returns y \<Rightarrow> if x \<noteq> y then Returns False else eq_loop a b (i + 1)
              | Throws e \<Rightarrow> Throws e
              | Undefined \<Rightarrow> Undefined)
         | Throws e \<Rightarrow> Throws e
         | Undefined \<Rightarrow> Undefined)
      else Returns True)"
  by pat_completeness auto
termination
  by (relation "measure (\<lambda>(a, b, i). nat (get_size a - i))") auto

declare eq_loop.simps [simp del]

definition equal_cb :: "int CircularBuffer \<Rightarrow> int CircularBuffer \<Rightarrow> bool outcome" where
  "equal_cb a b = (if get_size a \<noteq> get_size b then Returns False else eq_loop a b 0)"

definition not_equal_cb :: "int CircularBuffer \<Rightarrow> int CircularBuffer \<Rightarrow> bool outcome" where
  "not_equal_cb a b =
     (case equal_cb a b of
        Returns r \<Rightarrow> Returns (\<not> r)
      | Throws e \<Rightarrow> Throws e
      | Undefined \<Rightarrow> Undefined)"

subsection \<open>Representation\<close>

text \<open>
  The array behind \<^verbatim>\<open>buffer\<close> has \<^verbatim>\<open>capacity\<close> cells, as after the constructors, and
  \<open>slot cb j\<close> is the cell of logical index \<open>j\<close> for a non-negative \<^verbatim>\<open>start\<close>. Both
  are used in the statements below only.
\<close>

definition storage_ok :: "'a CircularBuffer \<Rightarrow> bool" where
  "storage_ok cb \<longleftrightarrow>
     0 < capacity cb \<and>
     (case buffer cb of None \<Rightarrow> False | Some xs \<Rightarrow> int (length xs) = capacity cb)"

definition slot :: "'a CircularBuffer \<Rightarrow> int \<Rightarrow> nat" where
  "slot cb j = nat ((start cb + j) mod capacity cb)"

section \<open>Properties\<close>

lemmas cb_defs = c_rem_def INT_MAX_def INT_MIN_def load_def store_def new_array_def
  full_def empty_cb_def get_size_def get_capacity_def reserve_def

lemma smod_nonneg: "0 \<le> a \<Longrightarrow> 0 < b \<Longrightarrow> (a::int) smod b = a mod b"
  by (cases "a = 0") (simp_all add: smod_int_alt_def)

lemma c_rem_nonneg: "0 \<le> a \<Longrightarrow> a \<le> INT_MAX \<Longrightarrow> 0 < b \<Longrightarrow> c_rem a b = Some (a mod b)"
  by (simp add: c_rem_def INT_MIN_def smod_nonneg)

subsection \<open>Construction with a capacity\<close>

text \<open>
  C8 (as stated): construction with an explicit capacity fails exactly when the capacity
  is negative, and capacity 0 yields a valid buffer. The constructor tests
  \<^verbatim>\<open>capacity <= 0\<close>: with capacity 0 it throws \<^verbatim>\<open>std::invalid_argument\<close>.
\<close>

theorem CircularBuffer_capacity_zero_counterexample:
  "CircularBuffer_capacity (0::int) 0 = Throws invalid_argument"
  by (simp add: CircularBuffer_capacity_def)

text \<open>
  C8 (amended): construction with an explicit capacity throws \<^verbatim>\<open>std::invalid_argument\<close>
  exactly when the capacity is zero or negative; for a positive capacity it returns a
  buffer of that capacity with size 0, which is empty, not full, and has the whole
  capacity in reserve.
\<close>

theorem CircularBuffer_capacity_rejects_nonpositive:
  "(CircularBuffer_capacity dT n = Throws invalid_argument \<longleftrightarrow> n \<le> 0) \<and>
   (0 < n \<longrightarrow>
      (\<exists>cb. CircularBuffer_capacity dT n = Returns cb \<and> get_size cb = 0 \<and>
            get_capacity cb = n \<and> reserve cb = n \<and> empty_cb cb \<and> \<not> full cb \<and>
            buffer cb = Some (replicate (nat n) dT)))"
  by (simp add: CircularBuffer_capacity_def cb_defs)

theorem CircularBuffer_capacity_rejects_nonpositive_witness:
  "CircularBuffer_capacity (0::int) 5 =
     Returns \<lparr>capacity = 5, size_cb = 0, buffer = Some [0, 0, 0, 0, 0],
              start = - 1, end_cb = - 1\<rparr>
   \<and> CircularBuffer_capacity (0::int) (- 2) = Throws invalid_argument"
  using CircularBuffer_capacity_rejects_nonpositive [of "0::int" 5]
    CircularBuffer_capacity_rejects_nonpositive [of "0::int" "- 2"]
  by (simp add: CircularBuffer_capacity_def cb_defs eval_nat_numeral)

subsection \<open>push_back and push_front\<close>

text \<open>
  C1: after a successful \<^verbatim>\<open>push_front(item)\<close>, \<^verbatim>\<open>front()\<close> yields the item. On a buffer
  fresh from \<^verbatim>\<open>CircularBuffer(5)\<close> the code stores the item in slot
  \<open>(-1 - 1 + 5) % 5 = 3\<close> and then, because the size is 0, sets \<^verbatim>\<open>start\<close> to 0:
  \<^verbatim>\<open>front()\<close> reads slot 0, which was never written, and \<^verbatim>\<open>end\<close> is still \<open>-1\<close>, so
  \<^verbatim>\<open>back()\<close> reads outside the array.
\<close>

theorem push_front_on_fresh_buffer:
  "CircularBuffer_capacity d 5 =
     Returns \<lparr>capacity = 5, size_cb = 0, buffer = Some [d, d, d, d, d],
              start = - 1, end_cb = - 1\<rparr>
   \<and> push_front \<lparr>capacity = 5, size_cb = 0, buffer = Some [d, d, d, d, d],
                  start = - 1, end_cb = - 1\<rparr> x
     = Done \<lparr>capacity = 5, size_cb = 1, buffer = Some [d, d, d, x, d],
             start = 0, end_cb = - 1\<rparr>
   \<and> front \<lparr>capacity = 5, size_cb = 1, buffer = Some [d, d, d, x, d],
              start = 0, end_cb = - 1\<rparr> = Returns d
   \<and> back_cb \<lparr>capacity = 5, size_cb = 1, buffer = Some [d, d, d, x, d],
                start = 0, end_cb = - 1\<rparr> = Undefined"
  by (simp add: CircularBuffer_capacity_def push_front_def front_def back_cb_def cb_defs
      eval_nat_numeral)

text \<open>
  Both functions throw \<^verbatim>\<open>std::overflow_error\<close> exactly when the buffer is full, leaving
  it as it was. On a buffer that is not full, \<^verbatim>\<open>push_back\<close> makes the item the result
  of \<^verbatim>\<open>back()\<close>; so does \<^verbatim>\<open>push_front\<close> for \<^verbatim>\<open>front()\<close> when the buffer is not empty.
\<close>

lemma push_back_throws_iff:
  "push_back cb x = Thrown e cb' \<longleftrightarrow> full cb \<and> e = overflow_error \<and> cb' = cb"
  by (auto simp: push_back_def split: option.splits)

lemma push_front_throws_iff:
  "push_front cb x = Thrown e cb' \<longleftrightarrow> full cb \<and> e = overflow_error \<and> cb' = cb"
  by (auto simp: push_front_def split: option.splits)

lemma push_back_ok:
  assumes "\<not> full cb" "storage_ok cb" "- 1 \<le> end_cb cb" "end_cb cb < capacity cb"
    "capacity cb \<le> INT_MAX"
  shows "\<exists>cb'. push_back cb x = Done cb' \<and> get_size cb' = get_size cb + 1 \<and>
               back_cb cb' = Returns x"
proof -
  from assms obtain xs where xs: "buffer cb = Some xs" "int (length xs) = capacity cb"
    and cap: "0 < capacity cb"
    by (auto simp: storage_ok_def split: option.splits)
  define e where "e = (end_cb cb + 1) mod capacity cb"
  have e: "0 \<le> e" "e < capacity cb" "c_rem (end_cb cb + 1) (capacity cb) = Some e"
    using assms cap by (simp_all add: e_def c_rem_nonneg)
  with xs cap assms(1) show ?thesis
    by (simp add: push_back_def back_cb_def load_def store_def get_size_def)
qed

lemma push_front_ok:
  assumes "\<not> full cb" "size_cb cb \<noteq> 0" "storage_ok cb" "0 \<le> start cb"
    "start cb < capacity cb" "start cb + capacity cb \<le> INT_MAX"
  shows "\<exists>cb'. push_front cb x = Done cb' \<and> get_size cb' = get_size cb + 1 \<and>
               front cb' = Returns x"
proof -
  from assms obtain xs where xs: "buffer cb = Some xs" "int (length xs) = capacity cb"
    and cap: "0 < capacity cb"
    by (auto simp: storage_ok_def split: option.splits)
  define s where "s = (start cb - 1 + capacity cb) mod capacity cb"
  have s: "0 \<le> s" "s < capacity cb"
    "c_rem (start cb - 1 + capacity cb) (capacity cb) = Some s"
    using assms cap by (simp_all add: s_def c_rem_nonneg)
  with xs cap assms(1,2) show ?thesis
    by (simp add: push_front_def front_def load_def store_def get_size_def)
qed

subsection \<open>swap\<close>

text \<open>
  C2: \<^verbatim>\<open>a.swap(b)\<close> exchanges the whole state. The code exchanges the two \<^verbatim>\<open>buffer\<close>
  pointers only: with \<open>a\<close> holding 1, 2, 3 in capacity 3 and \<open>b\<close> fresh from
  \<^verbatim>\<open>CircularBuffer(5)\<close>, \<open>a\<close> keeps capacity 3 and size 3 over the array of \<open>b\<close>,
  and \<open>b\<close> keeps size 0.
\<close>

theorem swap_exchanges_only_storage:
  "swap \<lparr>capacity = 3, size_cb = 3, buffer = Some [1, 2, 3::int], start = 0, end_cb = 2\<rparr>
        \<lparr>capacity = 5, size_cb = 0, buffer = Some [0, 0, 0, 0, 0], start = - 1, end_cb = - 1\<rparr>
   = (\<lparr>capacity = 3, size_cb = 3, buffer = Some [0, 0, 0, 0, 0], start = 0, end_cb = 2\<rparr>,
      \<lparr>capacity = 5, size_cb = 0, buffer = Some [1, 2, 3], start = - 1, end_cb = - 1\<rparr>)"
  by (simp add: swap_def)

subsection \<open>front and back\<close>

text \<open>
  C3: on a buffer with positive size \<^verbatim>\<open>back()\<close> returns the last live element, and on
  a buffer with size 0 \<^verbatim>\<open>front()\<close> and \<^verbatim>\<open>back()\<close> fail with the empty-buffer error.
  \<^verbatim>\<open>insert\<close> never assigns \<^verbatim>\<open>end\<close>, which \<^verbatim>\<open>push_back\<close> does: after
  \<^verbatim>\<open>CircularBuffer(5)\<close>, \<^verbatim>\<open>push_back\<close> of 10, 20, 30 and \<^verbatim>\<open>insert(1, 15)\<close> the buffer
  reads 10, 15, 20, 30, the last element \<^verbatim>\<open>at(3)\<close> is 30, and \<^verbatim>\<open>back()\<close> returns 20.
  Neither function tests the size: on the buffer fresh from \<^verbatim>\<open>CircularBuffer(5)\<close> both
  read \<^verbatim>\<open>buffer[-1]\<close>.
\<close>

theorem back_after_insert_is_stale:
  "push_back \<lparr>capacity = 5, size_cb = 0, buffer = Some [0, 0, 0, 0, 0::int],
                 start = - 1, end_cb = - 1\<rparr> 10
     = Done \<lparr>capacity = 5, size_cb = 1, buffer = Some [10, 0, 0, 0, 0], start = 0, end_cb = 0\<rparr>
   \<and> push_back \<lparr>capacity = 5, size_cb = 1, buffer = Some [10, 0, 0, 0, 0::int],
                 start = 0, end_cb = 0\<rparr> 20
     = Done \<lparr>capacity = 5, size_cb = 2, buffer = Some [10, 20, 0, 0, 0], start = 0, end_cb = 1\<rparr>
   \<and> push_back \<lparr>capacity = 5, size_cb = 2, buffer = Some [10, 20, 0, 0, 0::int],
                 start = 0, end_cb = 1\<rparr> 30
     = Done \<lparr>capacity = 5, size_cb = 3, buffer = Some [10, 20, 30, 0, 0], start = 0, end_cb = 2\<rparr>
   \<and> insert_cb \<lparr>capacity = 5, size_cb = 3, buffer = Some [10, 20, 30, 0, 0::int],
                 start = 0, end_cb = 2\<rparr> 1 15
     = Done \<lparr>capacity = 5, size_cb = 4, buffer = Some [10, 15, 20, 30, 0], start = 0, end_cb = 2\<rparr>
   \<and> back_cb \<lparr>capacity = 5, size_cb = 4, buffer = Some [10, 15, 20, 30, 0::int],
                start = 0, end_cb = 2\<rparr> = Returns 20
   \<and> at \<lparr>capacity = 5, size_cb = 4, buffer = Some [10, 15, 20, 30, 0::int],
           start = 0, end_cb = 2\<rparr> 3 = Returns 30
   \<and> front \<lparr>capacity = 5, size_cb = 0, buffer = Some [0, 0, 0, 0, 0::int],
             start = - 1, end_cb = - 1\<rparr> = Undefined
   \<and> back_cb \<lparr>capacity = 5, size_cb = 0, buffer = Some [0, 0, 0, 0, 0::int],
               start = - 1, end_cb = - 1\<rparr> = Undefined"
  by (simp add: push_back_def insert_cb_def insert_loop.simps back_cb_def front_def at_def
      cb_defs smod_int_alt_def)

text \<open>
  \<^verbatim>\<open>front()\<close> and \<^verbatim>\<open>back()\<close> never throw; they read the cells at the two markers.
  They agree with \<^verbatim>\<open>at(0)\<close> and \<^verbatim>\<open>at(size - 1)\<close> as long as the markers are where
  \<^verbatim>\<open>push_back\<close> leaves them. After \<^verbatim>\<open>push_back(1)\<close> and \<^verbatim>\<open>clear()\<close> both return the
  stale 1.
\<close>

lemma front_back_read_markers:
  "front cb \<noteq> Throws e \<and> back_cb cb \<noteq> Throws e \<and>
   front cb = ub (load (buffer cb) (start cb)) \<and>
   back_cb cb = ub (load (buffer cb) (end_cb cb)) \<and>
   (0 < size_cb cb \<and> 0 \<le> start cb \<and> start cb < capacity cb \<and> capacity cb \<le> INT_MAX \<longrightarrow>
      front cb = at cb 0) \<and>
   (0 < size_cb cb \<and> 0 \<le> start cb \<and> start cb < capacity cb \<and>
    start cb + size_cb cb - 1 \<le> INT_MAX \<and>
    end_cb cb = (start cb + size_cb cb - 1) mod capacity cb \<longrightarrow>
      back_cb cb = at cb (size_cb cb - 1))"
proof -
  have a: "front cb \<noteq> Throws e"
    by (cases "load (buffer cb) (start cb)") (simp_all add: front_def)
  have b: "back_cb cb \<noteq> Throws e"
    by (cases "load (buffer cb) (end_cb cb)") (simp_all add: back_cb_def)
  have c: "front cb = at cb 0"
    if "0 < size_cb cb" "0 \<le> start cb" "start cb < capacity cb" "capacity cb \<le> INT_MAX"
    using that by (simp add: front_def at_def c_rem_nonneg)
  have d: "back_cb cb = at cb (size_cb cb - 1)"
    if "0 < size_cb cb" "0 \<le> start cb" "start cb < capacity cb"
      "start cb + size_cb cb - 1 \<le> INT_MAX"
      "end_cb cb = (start cb + size_cb cb - 1) mod capacity cb"
  proof -
    have "c_rem (start cb + (size_cb cb - 1)) (capacity cb) = Some (end_cb cb)"
      using that c_rem_nonneg [of "start cb + (size_cb cb - 1)" "capacity cb"]
      by (simp add: algebra_simps)
    with that show ?thesis
      by (simp add: back_cb_def at_def)
  qed
  from a b c d show ?thesis
    by (simp add: front_def back_cb_def)
qed

lemma front_back_after_clear:
  "push_back \<lparr>capacity = 5, size_cb = 0, buffer = Some [0, 0, 0, 0, 0::int],
                 start = - 1, end_cb = - 1\<rparr> 1
     = Done \<lparr>capacity = 5, size_cb = 1, buffer = Some [1, 0, 0, 0, 0],
             start = 0, end_cb = 0\<rparr>
   \<and> clear \<lparr>capacity = 5, size_cb = 1, buffer = Some [1, 0, 0, 0, 0::int],
              start = 0, end_cb = 0\<rparr>
     = \<lparr>capacity = 5, size_cb = 0, buffer = Some [1, 0, 0, 0, 0], start = 0, end_cb = 0\<rparr>
   \<and> front \<lparr>capacity = 5, size_cb = 0, buffer = Some [1, 0, 0, 0, 0::int],
              start = 0, end_cb = 0\<rparr> = Returns 1
   \<and> back_cb \<lparr>capacity = 5, size_cb = 0, buffer = Some [1, 0, 0, 0, 0::int],
                start = 0, end_cb = 0\<rparr> = Returns 1"
  by (simp add: push_back_def clear_def front_def back_cb_def cb_defs smod_int_alt_def)

subsection \<open>rotate\<close>

text \<open>
  C4: \<^verbatim>\<open>rotate(new_start)\<close> makes the element at logical index \<open>new_start\<close> the first
  one. On the buffer holding 1, 2, 3 (three \<^verbatim>\<open>push_back\<close> calls after
  \<^verbatim>\<open>CircularBuffer(3)\<close>), \<^verbatim>\<open>rotate(1)\<close> copies the elements into a new array in their old
  order: the buffer still reads 1, 2, 3 where the claim has 2, 3, 1.
\<close>

theorem rotate_keeps_order:
  "push_back \<lparr>capacity = 3, size_cb = 0, buffer = Some [0, 0, 0::int],
                 start = - 1, end_cb = - 1\<rparr> 1
     = Done \<lparr>capacity = 3, size_cb = 1, buffer = Some [1, 0, 0], start = 0, end_cb = 0\<rparr>
   \<and> push_back \<lparr>capacity = 3, size_cb = 1, buffer = Some [1, 0, 0::int],
                 start = 0, end_cb = 0\<rparr> 2
     = Done \<lparr>capacity = 3, size_cb = 2, buffer = Some [1, 2, 0], start = 0, end_cb = 1\<rparr>
   \<and> push_back \<lparr>capacity = 3, size_cb = 2, buffer = Some [1, 2, 0::int],
                 start = 0, end_cb = 1\<rparr> 3
     = Done \<lparr>capacity = 3, size_cb = 3, buffer = Some [1, 2, 3], start = 0, end_cb = 2\<rparr>
   \<and> rotate_cb (0::int)
        \<lparr>capacity = 3, size_cb = 3, buffer = Some [1, 2, 3], start = 0, end_cb = 2\<rparr> 1
     = Done \<lparr>capacity = 3, size_cb = 3, buffer = Some [1, 2, 3], start = 0, end_cb = 2\<rparr>
   \<and> at \<lparr>capacity = 3, size_cb = 3, buffer = Some [1, 2, 3::int], start = 0, end_cb = 2\<rparr> 0
     = Returns 1"
  by (simp add: push_back_def rotate_cb_def relay_loop.simps at_def cb_defs
      smod_int_alt_def eval_nat_numeral)

text \<open>
  \<^verbatim>\<open>rotate\<close> throws \<^verbatim>\<open>std::out_of_range\<close> exactly when \<^verbatim>\<open>new_begin\<close> is negative or
  not below the size. Whenever it returns, every logical index holds the element it held
  before.
\<close>

lemma rotate_throws_iff:
  "rotate_cb dT cb k = Thrown e cb' \<longleftrightarrow>
     (k < 0 \<or> k \<ge> size_cb cb) \<and> e = out_of_range \<and> cb' = cb"
  by (auto simp: rotate_cb_def split: option.splits)

lemma relay_loop_spec:
  "relay_loop cb xs i = Some ys \<Longrightarrow> 0 \<le> i \<Longrightarrow>
     length ys = length xs \<and>
     (\<forall>j. i \<le> j \<and> j < size_cb cb \<longrightarrow>
          j < int (length xs) \<and> subscript cb j = Returns (ys ! nat j)) \<and>
     (\<forall>j. 0 \<le> j \<and> j < i \<longrightarrow> ys ! nat j = xs ! nat j)"
proof (induction cb xs i arbitrary: ys rule: relay_loop.induct)
  case (1 cb new_buffer i)
  show ?case
  proof (cases "i < size_cb cb")
    case False
    with "1.prems" show ?thesis by (subst (asm) relay_loop.simps) auto
  next
    case True
    from "1.prems"(1) True obtain k v xs1 where
      k: "c_rem (start cb + i) (capacity cb) = Some k" and
      v: "load (buffer cb) k = Some v" and
      st: "store (Some new_buffer) i v = Some xs1" and
      rec: "relay_loop cb xs1 (i + 1) = Some ys"
      by (subst (asm) relay_loop.simps) (auto split: option.splits)
    from st have i: "i < int (length new_buffer)" and xs1: "xs1 = new_buffer[nat i := v]"
      by (auto simp: store_def split: if_splits)
    from "1.IH" [OF True k v st rec] "1.prems"(2)
    have ih: "length ys = length xs1"
      "\<forall>j. i + 1 \<le> j \<and> j < size_cb cb \<longrightarrow>
          j < int (length xs1) \<and> subscript cb j = Returns (ys ! nat j)"
      "\<forall>j. 0 \<le> j \<and> j < i + 1 \<longrightarrow> ys ! nat j = xs1 ! nat j"
      by simp_all
    have at_i: "subscript cb i = Returns (ys ! nat i)"
    proof -
      from ih(3) "1.prems"(2) have "ys ! nat i = xs1 ! nat i" by simp
      with xs1 i "1.prems"(2) have "ys ! nat i = v" by simp
      with k v show ?thesis by (simp add: subscript_def)
    qed
    have a: "length ys = length new_buffer" using ih(1) xs1 by simp
    have b: "\<forall>j. i \<le> j \<and> j < size_cb cb \<longrightarrow>
          j < int (length new_buffer) \<and> subscript cb j = Returns (ys ! nat j)"
    proof (intro allI impI)
      fix j assume j: "i \<le> j \<and> j < size_cb cb"
      show "j < int (length new_buffer) \<and> subscript cb j = Returns (ys ! nat j)"
      proof (cases "j = i")
        case True
        with at_i i show ?thesis by simp
      next
        case False
        with j ih(2) xs1 show ?thesis by simp
      qed
    qed
    have c: "\<forall>j. 0 \<le> j \<and> j < i \<longrightarrow> ys ! nat j = new_buffer ! nat j"
    proof (intro allI impI)
      fix j assume j: "0 \<le> j \<and> j < i"
      with ih(3) have "ys ! nat j = xs1 ! nat j" by simp
      moreover from j have "nat j \<noteq> nat i" by arith
      with xs1 have "xs1 ! nat j = new_buffer ! nat j" by simp
      ultimately show "ys ! nat j = new_buffer ! nat j" by simp
    qed
    from a b c show ?thesis by blast
  qed
qed

lemma rotate_keeps_sequence:
  assumes "rotate_cb dT cb k = Done cb'" "0 \<le> j" "j < size_cb cb" "capacity cb \<le> INT_MAX"
  shows "get_size cb' = get_size cb \<and> at cb' j = at cb j"
proof (cases "k = start cb")
  case True
  with assms show ?thesis by (auto simp: rotate_cb_def split: if_splits)
next
  case False
  with assms(1) obtain ys where
    ys: "relay_loop cb (new_array dT (capacity cb)) 0 = Some ys" and
    cb': "cb' = cb\<lparr>start := 0, end_cb := size_cb cb - 1, buffer := Some ys\<rparr>"
    by (auto simp: rotate_cb_def split: if_splits option.splits)
  from relay_loop_spec [OF ys] assms(2,3)
  have len: "length ys = length (new_array dT (capacity cb))"
    and j: "j < int (length (new_array dT (capacity cb)))"
    and sub: "subscript cb j = Returns (ys ! nat j)"
    by auto
  from j assms(2) have jc: "j < capacity cb" by (simp add: new_array_def split: if_splits)
  with assms(2,4) have "c_rem j (capacity cb) = Some j" by (simp add: c_rem_nonneg)
  with jc assms(2,3) len j cb' sub show ?thesis
    by (simp add: at_def subscript_def load_def get_size_def split: option.splits)
qed

subsection \<open>set_capacity\<close>

text \<open>
  C5: \<^verbatim>\<open>set_capacity(new_capacity)\<close> keeps the first elements in logical order: all of
  them when \<open>new_capacity\<close> is at least the size, the first \<open>new_capacity\<close> otherwise,
  and it succeeds for every \<open>new_capacity \<ge> 0\<close>. The code hands \<open>new_capacity\<close> to
  \<^verbatim>\<open>realloc\<close> as a number of bytes and never assigns \<^verbatim>\<open>size\<close>. On the buffer of capacity
  5 holding 1, 2, 3 with \<^verbatim>\<open>int\<close> elements of 4 bytes, \<^verbatim>\<open>set_capacity(8)\<close> leaves an
  array of 2 cells under capacity 8: \<^verbatim>\<open>at(2)\<close>, which was 3, reads outside the array.
  \<^verbatim>\<open>set_capacity(2)\<close> leaves size 3 over capacity 2, so the buffer is not full and has
  \<open>-1\<close> in reserve. \<^verbatim>\<open>set_capacity(0)\<close> throws \<^verbatim>\<open>std::invalid_argument\<close>.
\<close>

theorem set_capacity_loses_elements:
  "set_capacity 4 (0::int) True
     \<lparr>capacity = 5, size_cb = 3, buffer = Some [1, 2, 3, 0, 0], start = 0, end_cb = 2\<rparr> 8
   = Done \<lparr>capacity = 8, size_cb = 3, buffer = Some [1, 2], start = 0, end_cb = 2\<rparr>
   \<and> at \<lparr>capacity = 5, size_cb = 3, buffer = Some [1, 2, 3, 0, 0::int], start = 0, end_cb = 2\<rparr> 2
     = Returns 3
   \<and> at \<lparr>capacity = 8, size_cb = 3, buffer = Some [1, 2::int], start = 0, end_cb = 2\<rparr> 2
     = Undefined
   \<and> set_capacity 4 (0::int) True
     \<lparr>capacity = 5, size_cb = 3, buffer = Some [1, 2, 3, 0, 0], start = 0, end_cb = 2\<rparr> 2
   = Done \<lparr>capacity = 2, size_cb = 3, buffer = Some [], start = 0, end_cb = 2\<rparr>
   \<and> get_size \<lparr>capacity = 2, size_cb = 3, buffer = Some ([] :: int list),
                 start = 0, end_cb = 2\<rparr> = 3
   \<and> full \<lparr>capacity = 2, size_cb = 3, buffer = Some ([] :: int list),
             start = 0, end_cb = 2\<rparr> = False
   \<and> reserve \<lparr>capacity = 2, size_cb = 3, buffer = Some ([] :: int list),
                start = 0, end_cb = 2\<rparr> = - 1
   \<and> set_capacity 4 (0::int) True
     \<lparr>capacity = 5, size_cb = 3, buffer = Some [1, 2, 3, 0, 0], start = 0, end_cb = 2\<rparr> 0
   = Thrown invalid_argument
     \<lparr>capacity = 5, size_cb = 3, buffer = Some [1, 2, 3, 0, 0], start = 0, end_cb = 2\<rparr>"
  by (simp add: set_capacity_def realloc_def Let_def at_def cb_defs smod_int_alt_def
      numeral_2_eq_2)

text \<open>
  The guard of \<^verbatim>\<open>set_capacity\<close>: it throws \<^verbatim>\<open>std::invalid_argument\<close> exactly when
  \<open>new_capacity \<le> 0\<close>, leaving the object as it was; for a positive \<open>new_capacity\<close>
  and a granted reallocation \<^verbatim>\<open>get_capacity()\<close> is \<open>new_capacity\<close> afterwards.
\<close>

lemma set_capacity_guard:
  "(set_capacity sizeof_T dT granted cb n = Thrown invalid_argument cb \<longleftrightarrow> n \<le> 0) \<and>
   (\<forall>cb'. set_capacity sizeof_T dT granted cb n = Thrown invalid_argument cb' \<longrightarrow>
          n \<le> 0 \<and> cb' = cb) \<and>
   (0 < n \<longrightarrow>
      (\<exists>cb'. set_capacity sizeof_T dT True cb n = Done cb' \<and> get_capacity cb' = n))"
  by (simp add: set_capacity_def realloc_def get_capacity_def Let_def)

subsection \<open>operator==\<close>

text \<open>
  C6: \<open>a == b\<close> holds iff the two buffers hold the same logical sequence. The code
  indexes with the value of \<^verbatim>\<open>front()\<close>: for \<open>a\<close> holding 1, 2 and \<open>b\<close> holding 2, 1
  (capacity 2 each) it compares \<open>a[1]\<close> with \<open>b[0]\<close> and \<open>a[0]\<close> with \<open>b[1]\<close> and
  returns true, although the elements at logical index 0 are 1 and 2.
\<close>

theorem equal_cb_accepts_reversed:
  "push_back \<lparr>capacity = 2, size_cb = 0, buffer = Some [0, 0::int],
                 start = - 1, end_cb = - 1\<rparr> 1
     = Done \<lparr>capacity = 2, size_cb = 1, buffer = Some [1, 0], start = 0, end_cb = 0\<rparr>
   \<and> push_back \<lparr>capacity = 2, size_cb = 1, buffer = Some [1, 0::int],
                 start = 0, end_cb = 0\<rparr> 2
     = Done \<lparr>capacity = 2, size_cb = 2, buffer = Some [1, 2], start = 0, end_cb = 1\<rparr>
   \<and> push_back \<lparr>capacity = 2, size_cb = 0, buffer = Some [0, 0::int],
                 start = - 1, end_cb = - 1\<rparr> 2
     = Done \<lparr>capacity = 2, size_cb = 1, buffer = Some [2, 0], start = 0, end_cb = 0\<rparr>
   \<and> push_back \<lparr>capacity = 2, size_cb = 1, buffer = Some [2, 0::int],
                 start = 0, end_cb = 0\<rparr> 1
     = Done \<lparr>capacity = 2, size_cb = 2, buffer = Some [2, 1], start = 0, end_cb = 1\<rparr>
   \<and> equal_cb \<lparr>capacity = 2, size_cb = 2, buffer = Some [1, 2], start = 0, end_cb = 1\<rparr>
               \<lparr>capacity = 2, size_cb = 2, buffer = Some [2, 1], start = 0, end_cb = 1\<rparr>
     = Returns True
   \<and> at \<lparr>capacity = 2, size_cb = 2, buffer = Some [1, 2::int], start = 0, end_cb = 1\<rparr> 0
     = Returns 1
   \<and> at \<lparr>capacity = 2, size_cb = 2, buffer = Some [2, 1::int], start = 0, end_cb = 1\<rparr> 0
     = Returns 2"
  by (simp add: push_back_def equal_cb_def eq_loop.simps probe_def front_def subscript_def
      at_def cb_defs smod_int_alt_def)

subsection \<open>Failing calls\<close>

text \<open>
  C7: a call that fails leaves capacity, size and elements as they were. When
  \<^verbatim>\<open>realloc\<close> returns the null pointer, \<^verbatim>\<open>set_capacity(8)\<close> has already assigned
  \<^verbatim>\<open>capacity\<close> and overwritten \<^verbatim>\<open>buffer\<close> when it throws \<^verbatim>\<open>std::out_of_range\<close>: on the
  buffer of capacity 5 holding 1, \<^verbatim>\<open>get_capacity()\<close> is 8 afterwards and the element is
  out of reach.
\<close>

theorem set_capacity_failed_realloc_mutates:
  "set_capacity 4 (0::int) False
     \<lparr>capacity = 5, size_cb = 1, buffer = Some [1, 0, 0, 0, 0], start = 0, end_cb = 0\<rparr> 8
   = Thrown out_of_range
     \<lparr>capacity = 8, size_cb = 1, buffer = None, start = 0, end_cb = 0\<rparr>
   \<and> get_capacity
       \<lparr>capacity = 5, size_cb = 1, buffer = Some [1, 0, 0, 0, 0::int], start = 0, end_cb = 0\<rparr>
     = 5
   \<and> get_capacity
       \<lparr>capacity = 8, size_cb = 1, buffer = (None :: int list option), start = 0, end_cb = 0\<rparr>
     = 8
   \<and> at \<lparr>capacity = 5, size_cb = 1, buffer = Some [1, 0, 0, 0, 0::int], start = 0, end_cb = 0\<rparr> 0
     = Returns 1
   \<and> at \<lparr>capacity = 8, size_cb = 1, buffer = (None :: int list option), start = 0, end_cb = 0\<rparr> 0
     = Undefined"
  by (simp add: set_capacity_def realloc_def at_def cb_defs smod_int_alt_def)

text \<open>
  Every other \<^verbatim>\<open>throw\<close> of the class comes before the first assignment: a call that
  fails one of the argument or state checks leaves the object as it was. Inside
  \<^verbatim>\<open>resize\<close> the calls of \<^verbatim>\<open>push_back\<close> and \<^verbatim>\<open>pop_back\<close> never throw.
\<close>

lemma resize_grow_no_throw:
  "size_cb cb = i \<Longrightarrow> n \<le> capacity cb \<Longrightarrow> resize_grow cb n x i \<noteq> Thrown e cb'"
proof (induction cb n x i rule: resize_grow.induct)
  case (1 cb new_size item i)
  show ?case
  proof (cases "i < new_size")
    case False
    then show ?thesis by (subst resize_grow.simps) simp
  next
    case True
    with "1.prems" have nf: "\<not> full cb" by (simp add: full_def)
    show ?thesis
    proof (cases "push_back cb item")
      case (Done c)
      with nf have "size_cb c = i + 1" "capacity c = capacity cb"
        using "1.prems" by (auto simp: push_back_def split: option.splits)
      with "1.IH" [OF True Done] "1.prems" Done True show ?thesis
        by (subst resize_grow.simps) simp
    next
      case (Thrown e' c)
      with nf show ?thesis by (auto simp: push_back_def split: option.splits)
    next
      case Undef
      with True show ?thesis by (subst resize_grow.simps) simp
    qed
  qed
qed

lemma resize_shrink_no_throw:
  "size_cb cb = i + 1 \<Longrightarrow> 0 \<le> n \<Longrightarrow> resize_shrink cb n i \<noteq> Thrown e cb'"
proof (induction cb n i rule: resize_shrink.induct)
  case (1 cb new_size i)
  show ?case
  proof (cases "i \<ge> new_size")
    case False
    then show ?thesis by (subst resize_shrink.simps) simp
  next
    case True
    with "1.prems" have ne: "\<not> empty_cb cb" by (simp add: empty_cb_def)
    show ?thesis
    proof (cases "pop_back cb")
      case (Done c)
      with ne have "size_cb c = i - 1 + 1"
        using "1.prems" by (auto simp: pop_back_def split: option.splits)
      with "1.IH" [OF True Done] "1.prems" Done True show ?thesis
        by (subst resize_shrink.simps) simp
    next
      case (Thrown e' c)
      with ne show ?thesis by (auto simp: pop_back_def split: option.splits)
    next
      case Undef
      with True show ?thesis by (subst resize_shrink.simps) simp
    qed
  qed
qed

lemma failed_check_keeps_object:
  "rotate_cb dT cb k = Thrown e cb' \<Longrightarrow> cb' = cb"
  "push_back cb x = Thrown e cb' \<Longrightarrow> cb' = cb"
  "push_front cb x = Thrown e cb' \<Longrightarrow> cb' = cb"
  "pop_back cb = Thrown e cb' \<Longrightarrow> cb' = cb"
  "pop_front cb = Thrown e cb' \<Longrightarrow> cb' = cb"
  "insert_cb cb pos x = Thrown e cb' \<Longrightarrow> cb' = cb"
  "erase cb first' last' = Thrown e cb' \<Longrightarrow> cb' = cb"
  "resize cb n x = Thrown e cb' \<Longrightarrow> cb' = cb"
  "set_capacity sizeof_T dT granted cb n = Thrown invalid_argument cb' \<Longrightarrow> cb' = cb"
  "linearize dT cb \<noteq> Thrown e r"
  "assign dT same this cb \<noteq>  Thrown e cb'"
proof -
  show "rotate_cb dT cb k = Thrown e cb' \<Longrightarrow> cb' = cb"
    by (auto simp: rotate_cb_def split: if_splits option.splits)
  show "push_back cb x = Thrown e cb' \<Longrightarrow> cb' = cb"
    by (auto simp: push_back_def split: if_splits option.splits)
  show "push_front cb x = Thrown e cb' \<Longrightarrow> cb' = cb"
    by (auto simp: push_front_def split: if_splits option.splits)
  show "pop_back cb = Thrown e cb' \<Longrightarrow> cb' = cb"
    by (auto simp: pop_back_def split: if_splits option.splits)
  show "pop_front cb = Thrown e cb' \<Longrightarrow> cb' = cb"
    by (auto simp: pop_front_def split: if_splits option.splits)
  show "insert_cb cb pos x = Thrown e cb' \<Longrightarrow> cb' = cb"
    by (auto simp: insert_cb_def split: if_splits option.splits)
  show "erase cb first' last' = Thrown e cb' \<Longrightarrow> cb' = cb"
    by (auto simp: erase_def split: if_splits option.splits)
  show "resize cb n x = Thrown e cb' \<Longrightarrow> cb' = cb"
    using resize_grow_no_throw [of cb "size_cb cb" n x e cb']
      resize_shrink_no_throw [of cb "size_cb cb - 1" n e cb']
    by (auto simp: resize_def split: if_splits)
  show "set_capacity sizeof_T dT granted cb n = Thrown invalid_argument cb' \<Longrightarrow> cb' = cb"
    by (auto simp: set_capacity_def split: if_splits option.splits)
  show "linearize dT cb \<noteq> Thrown e r"
    by (auto simp: linearize_def split: if_splits option.splits)
  show "assign dT same this cb \<noteq>  Thrown e cb'"
    by (cases "copy_loop \<lparr>capacity = capacity cb, size_cb = size_cb cb,
            buffer = Some (new_array dT (capacity cb)),
            start = start cb, end_cb = end_cb cb\<rparr> cb 0")
       (auto simp: assign_def)
qed

lemma set_capacity_throws:
  "set_capacity sizeof_T dT granted cb n = Thrown e cb' \<longleftrightarrow>
     (n \<le> 0 \<and> e = invalid_argument \<and> cb' = cb) \<or>
     (0 < n \<and> \<not> granted \<and> e = out_of_range \<and>
      cb' = cb\<lparr>capacity := n, buffer := None\<rparr>)"
  by (auto simp: set_capacity_def realloc_def Let_def)

subsection \<open>insert followed by erase\<close>

text \<open>
  C9: on every buffer that is not full, \<^verbatim>\<open>insert(pos, x)\<close> followed by
  \<^verbatim>\<open>erase(pos, pos)\<close> restores the sequence. On a buffer fresh from
  \<^verbatim>\<open>CircularBuffer(5)\<close>, where \<^verbatim>\<open>start\<close> is \<open>-1\<close>, \<^verbatim>\<open>insert(0, x)\<close> writes to
  \<^verbatim>\<open>buffer[(-1 + 0) % 5]\<close>, that is \<^verbatim>\<open>buffer[-1]\<close>: undefined behaviour.
\<close>

theorem insert_on_fresh_buffer_undefined:
  "CircularBuffer_capacity d 5 =
     Returns \<lparr>capacity = 5, size_cb = 0, buffer = Some [d, d, d, d, d],
              start = - 1, end_cb = - 1\<rparr>
   \<and> insert_cb \<lparr>capacity = 5, size_cb = 0, buffer = Some [d, d, d, d, d],
                  start = - 1, end_cb = - 1\<rparr> 0 x = Undef"
  by (simp add: CircularBuffer_capacity_def insert_cb_def insert_loop.simps cb_defs
      smod_int_alt_def eval_nat_numeral)

text \<open>
  Once \<^verbatim>\<open>start\<close> is non-negative (after the first \<^verbatim>\<open>push_back\<close> or \<^verbatim>\<open>clear\<close>) the
  two loops shift the elements as intended: \<^verbatim>\<open>insert(pos, x)\<close> followed by
  \<^verbatim>\<open>erase(pos, pos)\<close> restores the sequence on every buffer with room for one more
  element.
\<close>

lemma slot_less: "0 < capacity cb \<Longrightarrow> int (slot cb j) < capacity cb"
  by (simp add: slot_def)

lemma mod_inj_on_window:
  fixes c :: int
  assumes "0 \<le> i" "i < c" "0 \<le> j" "j < c" "(s + i) mod c = (s + j) mod c"
  shows "i = j"
proof -
  from assms(5) have "c dvd (s + i) - (s + j)" by (simp add: mod_eq_dvd_iff)
  then have d: "c dvd i - j" by simp
  show ?thesis
  proof (rule ccontr)
    assume "i \<noteq> j"
    then consider "j < i" | "i < j" by linarith
    then show False
    proof cases
      case 1
      with assms have "0 < i - j" "i - j < c" by simp_all
      with d show False using zdvd_not_zless by blast
    next
      case 2
      with assms have "0 < j - i" "j - i < c" by simp_all
      moreover from d have "c dvd j - i" by (simp add: dvd_diff_commute)
      ultimately show False using zdvd_not_zless by blast
    qed
  qed
qed

lemma slot_eq_iff:
  "0 < capacity cb \<Longrightarrow> 0 \<le> i \<Longrightarrow> i < capacity cb \<Longrightarrow> 0 \<le> j \<Longrightarrow> j < capacity cb \<Longrightarrow>
     slot cb i = slot cb j \<longleftrightarrow> i = j"
proof -
  assume a: "0 < capacity cb" "0 \<le> i" "i < capacity cb" "0 \<le> j" "j < capacity cb"
  then have "0 \<le> (start cb + i) mod capacity cb" "0 \<le> (start cb + j) mod capacity cb"
    by simp_all
  then have "slot cb i = slot cb j \<longleftrightarrow>
      (start cb + i) mod capacity cb = (start cb + j) mod capacity cb"
    by (simp add: slot_def eq_nat_nat_iff)
  with a mod_inj_on_window [of i "capacity cb" j "start cb"] show ?thesis by auto
qed

lemma c_rem_slot:
  "0 < capacity cb \<Longrightarrow> 0 \<le> start cb + j \<Longrightarrow> start cb + j \<le> INT_MAX \<Longrightarrow>
     c_rem (start cb + j) (capacity cb) = Some (int (slot cb j))"
  by (simp add: c_rem_nonneg slot_def)

lemma load_slot:
  "buffer cb = Some xs \<Longrightarrow> int (length xs) = capacity cb \<Longrightarrow> 0 < capacity cb \<Longrightarrow>
     load (buffer cb) (int (slot cb j)) = Some (xs ! slot cb j)"
  using slot_less [of cb j] by (simp add: load_def)

lemma store_slot:
  "buffer cb = Some xs \<Longrightarrow> int (length xs) = capacity cb \<Longrightarrow> 0 < capacity cb \<Longrightarrow>
     store (buffer cb) (int (slot cb j)) v = Some (xs[slot cb j := v])"
  using slot_less [of cb j] by (simp add: store_def)

lemma slot_buffer_update [simp]: "slot (cb\<lparr>buffer := b\<rparr>) j = slot cb j"
  by (simp add: slot_def)

lemma insert_loop_spec:
  "buffer cb = Some xs \<Longrightarrow> int (length xs) = capacity cb \<Longrightarrow> 0 \<le> start cb \<Longrightarrow>
   0 \<le> pos \<Longrightarrow> pos \<le> i + 1 \<Longrightarrow> i + 1 < capacity cb \<Longrightarrow>
   start cb + capacity cb \<le> INT_MAX \<Longrightarrow>
   \<exists>ys. insert_loop cb pos i = Some (cb\<lparr>buffer := Some ys\<rparr>) \<and> length ys = length xs \<and>
        (\<forall>j. 0 \<le> j \<and> j < capacity cb \<longrightarrow>
           ys ! slot cb j = (if pos < j \<and> j \<le> i + 1 then xs ! slot cb (j - 1) else xs ! slot cb j))"
proof (induction cb pos i arbitrary: xs rule: insert_loop.induct)
  case (1 cb pos i)
  have cap: "0 < capacity cb" using "1.prems" by linarith
  show ?case
  proof (cases "i \<ge> pos")
    case False
    with "1.prems" have "i + 1 = pos" by simp
    moreover have "cb\<lparr>buffer := Some xs\<rparr> = cb"
      using "1.prems"(1) by (cases cb) simp
    ultimately show ?thesis
      using False by (subst insert_loop.simps) (auto intro!: exI [of _ xs])
  next
    case True
    define v where "v = xs ! slot cb i"
    define xs1 where "xs1 = xs[slot cb (i + 1) := v]"
    define cb1 where "cb1 = cb\<lparr>buffer := Some xs1\<rparr>"
    have kd: "c_rem (start cb + i + 1) (capacity cb) = Some (int (slot cb (i + 1)))"
      using c_rem_slot [of cb "i + 1"] cap "1.prems" True by (simp add: add.assoc)
    have ks: "c_rem (start cb + i) (capacity cb) = Some (int (slot cb i))"
      using c_rem_slot [of cb i] cap "1.prems" True by simp
    have ld: "load (buffer cb) (int (slot cb i)) = Some v"
      using load_slot [OF "1.prems"(1,2) cap] by (simp add: v_def)
    have st: "store (buffer cb) (int (slot cb (i + 1))) v = Some xs1"
      using store_slot [OF "1.prems"(1,2) cap] by (simp add: xs1_def)
    have step: "insert_loop cb pos i = insert_loop cb1 pos (i - 1)"
      using True kd ks ld st by (subst insert_loop.simps) (simp add: cb1_def)
    have "\<exists>ys. insert_loop cb1 pos (i - 1) = Some (cb1\<lparr>buffer := Some ys\<rparr>) \<and>
        length ys = length xs1 \<and>
        (\<forall>j. 0 \<le> j \<and> j < capacity cb1 \<longrightarrow>
           ys ! slot cb1 j =
             (if pos < j \<and> j \<le> i - 1 + 1 then xs1 ! slot cb1 (j - 1) else xs1 ! slot cb1 j))"
      using "1.prems" True
      by (intro "1.IH" [OF True kd ks ld st, of xs1, folded cb1_def])
        (simp_all add: cb1_def xs1_def)
    then obtain ys where ys:
      "insert_loop cb1 pos (i - 1) = Some (cb\<lparr>buffer := Some ys\<rparr>)"
      "length ys = length xs"
      "\<forall>j. 0 \<le> j \<and> j < capacity cb \<longrightarrow>
           ys ! slot cb j = (if pos < j \<and> j \<le> i then xs1 ! slot cb (j - 1) else xs1 ! slot cb j)"
      by (auto simp: cb1_def xs1_def)
    have rd: "xs1 ! slot cb k = (if k = i + 1 then v else xs ! slot cb k)"
      if "0 \<le> k" "k < capacity cb" for k
    proof -
      have "int (slot cb (i + 1)) < int (length xs)"
        using slot_less [OF cap, of "i + 1"] "1.prems"(2) by simp
      moreover have "slot cb (i + 1) = slot cb k \<longleftrightarrow> i + 1 = k"
        using slot_eq_iff [OF cap, of "i + 1" k] that "1.prems" True by simp
      ultimately show ?thesis by (auto simp: xs1_def)
    qed
    have "\<forall>j. 0 \<le> j \<and> j < capacity cb \<longrightarrow>
           ys ! slot cb j = (if pos < j \<and> j \<le> i + 1 then xs ! slot cb (j - 1) else xs ! slot cb j)"
    proof (intro allI impI)
      fix j assume j: "0 \<le> j \<and> j < capacity cb"
      show "ys ! slot cb j = (if pos < j \<and> j \<le> i + 1 then xs ! slot cb (j - 1) else xs ! slot cb j)"
      proof (cases "pos < j \<and> j \<le> i")
        case True
        have "ys ! slot cb j = xs1 ! slot cb (j - 1)"
          using ys(3) [rule_format, of j] j True by auto
        also have "\<dots> = xs ! slot cb (j - 1)"
          using rd [of "j - 1"] True j "1.prems" by simp
        finally show ?thesis using True by simp
      next
        case False
        have "ys ! slot cb j = xs1 ! slot cb j"
          using ys(3) [rule_format, of j] j False by auto
        also have "\<dots> = (if j = i + 1 then v else xs ! slot cb j)"
          using rd [of j] j by simp
        finally show ?thesis using False \<open>pos \<le> i\<close> by (auto simp: v_def)
      qed
    qed
    with step ys(1,2) show ?thesis by auto
  qed
qed

lemma erase_loop_spec:
  "buffer cb = Some xs \<Longrightarrow> int (length xs) = capacity cb \<Longrightarrow> 0 < capacity cb \<Longrightarrow>
   0 \<le> start cb \<Longrightarrow> 0 \<le> first' \<Longrightarrow> first' \<le> last' \<Longrightarrow> last' + 1 \<le> i \<Longrightarrow>
   size_cb cb \<le> capacity cb \<Longrightarrow> start cb + capacity cb \<le> INT_MAX \<Longrightarrow>
   \<exists>ys. erase_loop cb first' last' i = Some (cb\<lparr>buffer := Some ys\<rparr>) \<and>
        length ys = length xs \<and>
        (\<forall>j. 0 \<le> j \<and> j < capacity cb \<longrightarrow>
           ys ! slot cb j =
             (if i - (last' - first' + 1) \<le> j \<and> j < size_cb cb - (last' - first' + 1)
              then xs ! slot cb (j + (last' - first' + 1)) else xs ! slot cb j))"
proof (induction cb first' last' i arbitrary: xs rule: erase_loop.induct)
  case (1 cb first' last' i)
  define n where "n = last' - first' + 1"
  have n: "1 \<le> n" "n \<le> i" using "1.prems" by (simp_all add: n_def)
  have cap: "0 < capacity cb" by fact
  show ?case
  proof (cases "i < size_cb cb")
    case False
    have "cb\<lparr>buffer := Some xs\<rparr> = cb"
      using "1.prems"(1) by (cases cb) simp
    then show ?thesis
      using False by (subst erase_loop.simps) (auto intro!: exI [of _ xs])
  next
    case True
    define v where "v = xs ! slot cb i"
    define xs1 where "xs1 = xs[slot cb (i - n) := v]"
    define cb1 where "cb1 = cb\<lparr>buffer := Some xs1\<rparr>"
    have eq: "start cb + i - (last' - first' + 1) = start cb + (i - n)"
      by (simp add: n_def)
    have "c_rem (start cb + (i - n)) (capacity cb) = Some (int (slot cb (i - n)))"
      using c_rem_slot [of cb "i - n"] cap "1.prems" n True by simp
    then have kd: "c_rem (start cb + i - (last' - first' + 1)) (capacity cb)
        = Some (int (slot cb (i - n)))"
      by (simp only: eq)
    have ks: "c_rem (start cb + i) (capacity cb) = Some (int (slot cb i))"
      using c_rem_slot [of cb i] cap "1.prems" n True by simp
    have ld: "load (buffer cb) (int (slot cb i)) = Some v"
      using load_slot [OF "1.prems"(1,2) cap] by (simp add: v_def)
    have st: "store (buffer cb) (int (slot cb (i - n))) v = Some xs1"
      using store_slot [OF "1.prems"(1,2) cap] by (simp add: xs1_def)
    have step: "erase_loop cb first' last' i = erase_loop cb1 first' last' (i + 1)"
      using True kd ks ld st by (subst erase_loop.simps) (simp add: cb1_def)
    have "\<exists>ys. erase_loop cb1 first' last' (i + 1) = Some (cb1\<lparr>buffer := Some ys\<rparr>) \<and>
        length ys = length xs1 \<and>
        (\<forall>j. 0 \<le> j \<and> j < capacity cb1 \<longrightarrow>
           ys ! slot cb1 j =
             (if i + 1 - (last' - first' + 1) \<le> j \<and> j < size_cb cb1 - (last' - first' + 1)
              then xs1 ! slot cb1 (j + (last' - first' + 1)) else xs1 ! slot cb1 j))"
      using "1.prems" True
      by (intro "1.IH" [OF True kd ks ld st, of xs1, folded cb1_def])
        (simp_all add: cb1_def xs1_def)
    then obtain ys where ys:
      "erase_loop cb1 first' last' (i + 1) = Some (cb\<lparr>buffer := Some ys\<rparr>)"
      "length ys = length xs"
      "\<forall>j. 0 \<le> j \<and> j < capacity cb \<longrightarrow>
           ys ! slot cb j =
             (if i + 1 - n \<le> j \<and> j < size_cb cb - n
              then xs1 ! slot cb (j + n) else xs1 ! slot cb j)"
      by (auto simp: cb1_def xs1_def n_def)
    have rd: "xs1 ! slot cb k = (if k = i - n then v else xs ! slot cb k)"
      if "0 \<le> k" "k < capacity cb" for k
    proof -
      have "int (slot cb (i - n)) < int (length xs)"
        using slot_less [OF cap, of "i - n"] "1.prems"(2) by simp
      moreover have "slot cb (i - n) = slot cb k \<longleftrightarrow> i - n = k"
        using slot_eq_iff [OF cap, of "i - n" k] that "1.prems" True n by simp
      ultimately show ?thesis by (auto simp: xs1_def)
    qed
    have "\<forall>j. 0 \<le> j \<and> j < capacity cb \<longrightarrow>
           ys ! slot cb j =
             (if i - n \<le> j \<and> j < size_cb cb - n
              then xs ! slot cb (j + n) else xs ! slot cb j)"
    proof (intro allI impI)
      fix j assume j: "0 \<le> j \<and> j < capacity cb"
      show "ys ! slot cb j =
             (if i - n \<le> j \<and> j < size_cb cb - n
              then xs ! slot cb (j + n) else xs ! slot cb j)"
      proof (cases "i + 1 - n \<le> j \<and> j < size_cb cb - n")
        case True
        have "ys ! slot cb j = xs1 ! slot cb (j + n)"
          using ys(3) [rule_format, of j] j True by auto
        also have "\<dots> = xs ! slot cb (j + n)"
          using rd [of "j + n"] True j "1.prems" n by simp
        finally show ?thesis using True by simp
      next
        case False
        have "ys ! slot cb j = xs1 ! slot cb j"
          using ys(3) [rule_format, of j] j False by auto
        also have "\<dots> = (if j = i - n then v else xs ! slot cb j)"
          using rd [of j] j by simp
        finally show ?thesis using False \<open>i < size_cb cb\<close> by (auto simp: v_def)
      qed
    qed
    with step ys(1,2) show ?thesis by (auto simp: n_def)
  qed
qed

lemma slot_cong: "start a = start b \<Longrightarrow> capacity a = capacity b \<Longrightarrow> slot a j = slot b j"
  by (simp add: slot_def)

lemma at_slot:
  "buffer cb = Some xs \<Longrightarrow> int (length xs) = capacity cb \<Longrightarrow> 0 < capacity cb \<Longrightarrow>
   0 \<le> start cb \<Longrightarrow> 0 \<le> j \<Longrightarrow> j < size_cb cb \<Longrightarrow> start cb + j \<le> INT_MAX \<Longrightarrow>
   at cb j = Returns (xs ! slot cb j)"
  using c_rem_slot [of cb j] load_slot [of cb xs j] by (simp add: at_def)

lemma insert_cb_spec:
  assumes "buffer cb = Some xs" "int (length xs) = capacity cb" "0 \<le> start cb"
    "0 \<le> pos" "pos \<le> size_cb cb" "size_cb cb < capacity cb"
    "start cb + capacity cb \<le> INT_MAX"
  shows "\<exists>zs. insert_cb cb pos x =
            Done (cb\<lparr>buffer := Some zs, size_cb := size_cb cb + 1\<rparr>) \<and>
          length zs = length xs \<and>
          (\<forall>j. 0 \<le> j \<and> j < capacity cb \<longrightarrow>
             zs ! slot cb j =
               (if j = pos then x
                else if pos < j \<and> j \<le> size_cb cb then xs ! slot cb (j - 1)
                else xs ! slot cb j))"
proof -
  have cap: "0 < capacity cb" using assms by linarith
  from insert_loop_spec [OF assms(1,2,3,4) _ _ assms(7), of "size_cb cb - 1"] assms(5,6)
  obtain ys where ys:
    "insert_loop cb pos (size_cb cb - 1) = Some (cb\<lparr>buffer := Some ys\<rparr>)"
    "length ys = length xs"
    "\<forall>j. 0 \<le> j \<and> j < capacity cb \<longrightarrow>
       ys ! slot cb j = (if pos < j \<and> j \<le> size_cb cb then xs ! slot cb (j - 1) else xs ! slot cb j)"
    by auto
  define zs where "zs = ys[slot cb pos := x]"
  have k: "c_rem (start cb + pos) (capacity cb) = Some (int (slot cb pos))"
    using c_rem_slot [of cb pos] cap assms by simp
  have st: "store (Some ys) (int (slot cb pos)) x = Some zs"
    using slot_less [OF cap, of pos] ys(2) assms(2) by (simp add: store_def zs_def)
  have run: "insert_cb cb pos x = Done (cb\<lparr>buffer := Some zs, size_cb := size_cb cb + 1\<rparr>)"
    using assms(4,5,6) ys(1) k st by (simp add: insert_cb_def full_def)
  have rd: "zs ! slot cb j = (if j = pos then x else ys ! slot cb j)"
    if "0 \<le> j" "j < capacity cb" for j
  proof -
    have "int (slot cb pos) < int (length ys)"
      using slot_less [OF cap, of pos] ys(2) assms(2) by simp
    moreover have "slot cb pos = slot cb j \<longleftrightarrow> pos = j"
      using slot_eq_iff [OF cap, of pos j] that assms by simp
    ultimately show ?thesis by (auto simp: zs_def)
  qed
  have "\<forall>j. 0 \<le> j \<and> j < capacity cb \<longrightarrow>
             zs ! slot cb j =
               (if j = pos then x
                else if pos < j \<and> j \<le> size_cb cb then xs ! slot cb (j - 1)
                else xs ! slot cb j)"
    using rd ys(3) by simp
  with run ys(2) show ?thesis by (auto simp: zs_def)
qed

lemma erase_spec:
  assumes "buffer cb = Some xs" "int (length xs) = capacity cb" "0 \<le> start cb"
    "0 \<le> first'" "first' \<le> last'" "last' < size_cb cb" "size_cb cb \<le> capacity cb"
    "start cb + capacity cb \<le> INT_MAX" "- 1 \<le> end_cb cb" "end_cb cb + capacity cb \<le> INT_MAX"
  shows "\<exists>zs e. erase cb first' last' =
            Done (cb\<lparr>buffer := Some zs, size_cb := size_cb cb - (last' - first' + 1),
                      end_cb := e\<rparr>) \<and>
          length zs = length xs \<and>
          (\<forall>j. 0 \<le> j \<and> j < capacity cb \<longrightarrow>
             zs ! slot cb j =
               (if first' \<le> j \<and> j < size_cb cb - (last' - first' + 1)
                then xs ! slot cb (j + (last' - first' + 1)) else xs ! slot cb j))"
proof -
  have cap: "0 < capacity cb" using assms by linarith
  from erase_loop_spec [OF assms(1,2) cap assms(3,4,5) _ assms(7,8), of "last' + 1"]
  obtain zs where zs:
    "erase_loop cb first' last' (last' + 1) = Some (cb\<lparr>buffer := Some zs\<rparr>)"
    "length zs = length xs"
    "\<forall>j. 0 \<le> j \<and> j < capacity cb \<longrightarrow>
       zs ! slot cb j =
         (if last' + 1 - (last' - first' + 1) \<le> j \<and> j < size_cb cb - (last' - first' + 1)
          then xs ! slot cb (j + (last' - first' + 1)) else xs ! slot cb j)"
    by auto
  have "last' + 1 - (last' - first' + 1) = first'" by simp
  with zs(3) have spec: "\<forall>j. 0 \<le> j \<and> j < capacity cb \<longrightarrow>
       zs ! slot cb j =
         (if first' \<le> j \<and> j < size_cb cb - (last' - first' + 1)
          then xs ! slot cb (j + (last' - first' + 1)) else xs ! slot cb j)"
    by simp
  obtain e where e: "c_rem (end_cb cb - (last' - first' + 1) + capacity cb) (capacity cb) = Some e"
    using cap assms by (simp add: c_rem_def INT_MIN_def)
  have "erase cb first' last' =
          Done (cb\<lparr>buffer := Some zs, size_cb := size_cb cb - (last' - first' + 1),
                    end_cb := e\<rparr>)"
    using assms(4,5,6) zs(1) e by (simp add: erase_def)
  with zs(2) spec show ?thesis by blast
qed

lemma insert_then_erase_restores:
  assumes "storage_ok cb" "0 \<le> start cb" "0 \<le> pos" "pos \<le> size_cb cb"
    "size_cb cb < capacity cb"
    "start cb + capacity cb \<le> INT_MAX" "- 1 \<le> end_cb cb" "end_cb cb + capacity cb \<le> INT_MAX"
  shows "\<exists>c1 c2. insert_cb cb pos x = Done c1 \<and> erase c1 pos pos = Done c2 \<and>
           get_size c1 = get_size cb + 1 \<and> at c1 pos = Returns x \<and>
           get_size c2 = get_size cb \<and> get_capacity c2 = get_capacity cb \<and>
           (\<forall>j. 0 \<le> j \<and> j < get_size cb \<longrightarrow> at c2 j = at cb j)"
proof -
  from assms(1) obtain xs where xs: "buffer cb = Some xs" "int (length xs) = capacity cb"
    and cap: "0 < capacity cb"
    by (auto simp: storage_ok_def split: option.splits)
  from insert_cb_spec [OF xs assms(2,3,4,5,6), of x] obtain ys where
    ins: "insert_cb cb pos x = Done (cb\<lparr>buffer := Some ys, size_cb := size_cb cb + 1\<rparr>)" and
    ylen: "length ys = length xs" and
    ys: "\<forall>j. 0 \<le> j \<and> j < capacity cb \<longrightarrow>
             ys ! slot cb j =
               (if j = pos then x
                else if pos < j \<and> j \<le> size_cb cb then xs ! slot cb (j - 1)
                else xs ! slot cb j)"
    by blast
  define c1 where "c1 = cb\<lparr>buffer := Some ys, size_cb := size_cb cb + 1\<rparr>"
  have c1: "buffer c1 = Some ys" "int (length ys) = capacity c1" "0 \<le> start c1"
    "pos < size_cb c1" "size_cb c1 \<le> capacity c1" "capacity c1 = capacity cb"
    "start c1 = start cb" "size_cb c1 = size_cb cb + 1"
    using xs ylen assms by (simp_all add: c1_def)
  have c1r: "start c1 + capacity c1 \<le> INT_MAX" "- 1 \<le> end_cb c1"
    "end_cb c1 + capacity c1 \<le> INT_MAX"
    using assms by (simp_all add: c1_def)
  have sl: "slot c1 j = slot cb j" for j
    by (rule slot_cong) (simp_all add: c1)
  from erase_spec [OF c1(1,2,3) assms(3) order_refl c1(4,5) c1r] obtain zs e where
    er: "erase c1 pos pos =
          Done (c1\<lparr>buffer := Some zs, size_cb := size_cb c1 - (pos - pos + 1), end_cb := e\<rparr>)" and
    zlen: "length zs = length ys" and
    zs: "\<forall>j. 0 \<le> j \<and> j < capacity c1 \<longrightarrow>
             zs ! slot c1 j =
               (if pos \<le> j \<and> j < size_cb c1 - (pos - pos + 1)
                then ys ! slot c1 (j + (pos - pos + 1)) else ys ! slot c1 j)"
    by blast
  define c2 where
    "c2 = c1\<lparr>buffer := Some zs, size_cb := size_cb c1 - (pos - pos + 1), end_cb := e\<rparr>"
  have c2: "buffer c2 = Some zs" "int (length zs) = capacity c2" "capacity c2 = capacity cb"
    "start c2 = start cb" "size_cb c2 = size_cb cb"
    using c1 zlen by (simp_all add: c2_def)
  have sl2: "slot c2 j = slot cb j" for j
    by (rule slot_cong) (simp_all add: c2)
  have at_pos: "at c1 pos = Returns x"
    using at_slot [OF c1(1,2) _ c1(3) assms(3) c1(4)] cap c1(6,7) ys [rule_format, of pos]
      assms(3,4,5,6) by (simp add: sl)
  have same: "at c2 j = at cb j" if j: "0 \<le> j" "j < size_cb cb" for j
  proof -
    have jc: "j < capacity cb" "j + 1 < capacity cb" using j assms(5) by simp_all
    have "at c2 j = Returns (zs ! slot cb j)"
      using at_slot [OF c2(1,2) _ _ j(1), simplified c2 sl2] cap assms(2,5,6) j(2) c2
      by simp
    also have "zs ! slot cb j = xs ! slot cb j"
    proof (cases "pos \<le> j")
      case True
      have "zs ! slot cb j = ys ! slot cb (j + 1)"
        using zs [rule_format, of j] j jc True c1 by (simp add: sl)
      also have "\<dots> = xs ! slot cb j"
        using ys [rule_format, of "j + 1"] j jc True by simp
      finally show ?thesis .
    next
      case False
      have "zs ! slot cb j = ys ! slot cb j"
        using zs [rule_format, of j] j jc False c1 by (simp add: sl)
      also have "\<dots> = xs ! slot cb j"
        using ys [rule_format, of j] j jc False by simp
      finally show ?thesis .
    qed
    also have "Returns (xs ! slot cb j) = at cb j"
      using at_slot [OF xs cap assms(2) j] assms(5,6) j by simp
    finally show ?thesis .
  qed
  from ins er at_pos same c1 c2 show ?thesis
    unfolding c1_def [symmetric] c2_def [symmetric]
    by (auto simp: get_size_def get_capacity_def)
qed

text \<open>
  The scenario of the specification: a buffer of capacity 5 holding 10, 20, 30;
  \<^verbatim>\<open>insert(1, 15)\<close> gives 10, 15, 20, 30 and \<^verbatim>\<open>erase(1, 2)\<close> then gives 10, 30.
\<close>

lemma insert_erase_scenario:
  "insert_cb \<lparr>capacity = 5, size_cb = 3, buffer = Some [10, 20, 30, 0, 0::int],
                 start = 0, end_cb = 2\<rparr> 1 15
     = Done \<lparr>capacity = 5, size_cb = 4, buffer = Some [10, 15, 20, 30, 0],
             start = 0, end_cb = 2\<rparr>
   \<and> erase \<lparr>capacity = 5, size_cb = 4, buffer = Some [10, 15, 20, 30, 0::int],
               start = 0, end_cb = 2\<rparr> 1 2
     = Done \<lparr>capacity = 5, size_cb = 2, buffer = Some [10, 30, 20, 30, 0],
             start = 0, end_cb = 0\<rparr>"
  by (simp add: insert_cb_def erase_def insert_loop.simps erase_loop.simps cb_defs
      smod_int_alt_def)

subsection \<open>The default constructor\<close>

text \<open>No operation but the two that take a capacity changes the capacity of an object.\<close>

lemma fill_loop_capacity: "fill_loop cb e i = Some cb' \<Longrightarrow> capacity cb' = capacity cb"
proof (induction cb e i rule: fill_loop.induct)
  case (1 cb elem i)
  then show ?case
    by (subst (asm) (2) fill_loop.simps) (auto split: if_splits option.splits)
qed

lemma copy_loop_capacity: "copy_loop this cb i = Some cb' \<Longrightarrow> capacity cb' = capacity this"
proof (induction this cb i rule: copy_loop.induct)
  case (1 this cb i)
  then show ?case
    by (subst (asm) (2) copy_loop.simps) (auto split: if_splits option.splits)
qed

lemma insert_loop_capacity: "insert_loop cb pos i = Some cb' \<Longrightarrow> capacity cb' = capacity cb"
proof (induction cb pos i rule: insert_loop.induct)
  case (1 cb pos i)
  then show ?case
    by (subst (asm) (2) insert_loop.simps) (auto split: if_splits option.splits)
qed

lemma erase_loop_capacity:
  "erase_loop cb first' last' i = Some cb' \<Longrightarrow> capacity cb' = capacity cb"
proof (induction cb first' last' i rule: erase_loop.induct)
  case (1 cb first' last' i)
  then show ?case
    by (subst (asm) (2) erase_loop.simps) (auto split: if_splits option.splits)
qed

lemma push_back_capacity: "push_back cb x = Done cb' \<Longrightarrow> capacity cb' = capacity cb"
  by (auto simp: push_back_def split: if_splits option.splits)

lemma push_front_capacity: "push_front cb x = Done cb' \<Longrightarrow> capacity cb' = capacity cb"
  by (auto simp: push_front_def split: if_splits option.splits)

lemma pop_back_capacity: "pop_back cb = Done cb' \<Longrightarrow> capacity cb' = capacity cb"
  by (auto simp: pop_back_def split: if_splits option.splits)

lemma pop_front_capacity: "pop_front cb = Done cb' \<Longrightarrow> capacity cb' = capacity cb"
  by (auto simp: pop_front_def split: if_splits option.splits)

lemma resize_grow_capacity:
  "resize_grow cb n x i = Done cb' \<Longrightarrow> capacity cb' = capacity cb"
proof (induction cb n x i rule: resize_grow.induct)
  case (1 cb new_size item i)
  then show ?case
    by (subst (asm) (2) resize_grow.simps)
      (auto split: if_splits effect.splits dest: push_back_capacity)
qed

lemma resize_shrink_capacity:
  "resize_shrink cb n i = Done cb' \<Longrightarrow> capacity cb' = capacity cb"
proof (induction cb n i rule: resize_shrink.induct)
  case (1 cb new_size i)
  then show ?case
    by (subst (asm) (2) resize_shrink.simps)
      (auto split: if_splits effect.splits dest: pop_back_capacity)
qed

lemma capacity_kept:
  "push_back cb x = Done cb' \<Longrightarrow> capacity cb' = capacity cb"
  "push_front cb x = Done cb' \<Longrightarrow> capacity cb' = capacity cb"
  "pop_back cb = Done cb' \<Longrightarrow> capacity cb' = capacity cb"
  "pop_front cb = Done cb' \<Longrightarrow> capacity cb' = capacity cb"
  "insert_cb cb pos x = Done cb' \<Longrightarrow> capacity cb' = capacity cb"
  "erase cb first' last' = Done cb' \<Longrightarrow> capacity cb' = capacity cb"
  "resize cb n x = Done cb' \<Longrightarrow> capacity cb' = capacity cb"
  "rotate_cb dT cb k = Done cb' \<Longrightarrow> capacity cb' = capacity cb"
  "linearize dT cb = Done (p, cb') \<Longrightarrow> capacity cb' = capacity cb"
  "capacity (clear cb) = capacity cb"
  "capacity (fst (swap cb other)) = capacity cb"
  "capacity (snd (swap cb other)) = capacity other"
  "CircularBuffer_copy dT cb = Returns cb' \<Longrightarrow> capacity cb' = capacity cb"
  "assign dT same this cb = Done cb' \<Longrightarrow> capacity cb' = (if same then capacity this else capacity cb)"
proof -
  show "push_back cb x = Done cb' \<Longrightarrow> capacity cb' = capacity cb" by (rule push_back_capacity)
  show "push_front cb x = Done cb' \<Longrightarrow> capacity cb' = capacity cb" by (rule push_front_capacity)
  show "pop_back cb = Done cb' \<Longrightarrow> capacity cb' = capacity cb" by (rule pop_back_capacity)
  show "pop_front cb = Done cb' \<Longrightarrow> capacity cb' = capacity cb" by (rule pop_front_capacity)
  show "insert_cb cb pos x = Done cb' \<Longrightarrow> capacity cb' = capacity cb"
    by (auto simp: insert_cb_def split: if_splits option.splits dest: insert_loop_capacity)
  show "erase cb first' last' = Done cb' \<Longrightarrow> capacity cb' = capacity cb"
    by (auto simp: erase_def split: if_splits option.splits dest: erase_loop_capacity)
  show "resize cb n x = Done cb' \<Longrightarrow> capacity cb' = capacity cb"
    by (auto simp: resize_def split: if_splits dest: resize_grow_capacity resize_shrink_capacity)
  show "rotate_cb dT cb k = Done cb' \<Longrightarrow> capacity cb' = capacity cb"
    by (auto simp: rotate_cb_def split: if_splits option.splits)
  show "linearize dT cb = Done (p, cb') \<Longrightarrow> capacity cb' = capacity cb"
    by (auto simp: linearize_def split: if_splits option.splits)
  show "capacity (clear cb) = capacity cb" by (simp add: clear_def)
  show "capacity (fst (swap cb other)) = capacity cb" by (simp add: swap_def)
  show "capacity (snd (swap cb other)) = capacity other" by (simp add: swap_def)
  show "CircularBuffer_copy dT cb = Returns cb' \<Longrightarrow> capacity cb' = capacity cb"
    by (cases "copy_loop \<lparr>capacity = capacity cb, size_cb = size_cb cb,
            buffer = Some (new_array dT (capacity cb)),
            start = start cb, end_cb = end_cb cb\<rparr> cb 0")
      (auto simp: CircularBuffer_copy_def dest: copy_loop_capacity)
  show "assign dT same this cb = Done cb' \<Longrightarrow> capacity cb' = (if same then capacity this else capacity cb)"
    by (cases "copy_loop \<lparr>capacity = capacity cb, size_cb = size_cb cb,
            buffer = Some (new_array dT (capacity cb)),
            start = start cb, end_cb = end_cb cb\<rparr> cb 0")
      (auto simp: assign_def dest: copy_loop_capacity split: if_splits)
qed

lemma fill_returns_capacity:
  "CircularBuffer_fill dT n e = Returns cb \<Longrightarrow> capacity cb = n \<and> 0 < n"
  by (auto simp: CircularBuffer_fill_def CircularBuffer_capacity_def
      split: if_splits option.splits dest: fill_loop_capacity)

text \<open>
  C10: the buffer made by the default constructor has capacity 0 and size 0; \<^verbatim>\<open>empty()\<close>
  and \<^verbatim>\<open>full()\<close> are both true and \<^verbatim>\<open>reserve()\<close> is 0. It stays empty: every
  \<^verbatim>\<open>push_back\<close> and \<^verbatim>\<open>push_front\<close> throws \<^verbatim>\<open>std::overflow_error\<close>, every \<^verbatim>\<open>pop_back\<close>
  and \<^verbatim>\<open>pop_front\<close> throws \<^verbatim>\<open>std::underflow_error\<close>, and the object is unchanged by the
  failed call (this holds for every buffer of capacity 0 and size 0, whatever its
  markers). Capacity 0 comes from this constructor only: the constructors that take
  a capacity reject 0 and return a buffer of non-zero capacity, \<^verbatim>\<open>set_capacity\<close> never
  leaves capacity 0, a copy and an assignment take the capacity of their source, and
  every other operation keeps the capacity of the object.
\<close>

theorem default_buffer_permanently_empty:
  "get_capacity (CircularBuffer_default :: 'a CircularBuffer) = 0 \<and>
   get_size (CircularBuffer_default :: 'a CircularBuffer) = 0 \<and>
   empty_cb (CircularBuffer_default :: 'a CircularBuffer) \<and>
   full (CircularBuffer_default :: 'a CircularBuffer) \<and>
   reserve (CircularBuffer_default :: 'a CircularBuffer) = 0 \<and>
   push_back CircularBuffer_default (x::'a) = Thrown overflow_error CircularBuffer_default \<and>
   push_front CircularBuffer_default x = Thrown overflow_error CircularBuffer_default \<and>
   pop_back (CircularBuffer_default :: 'a CircularBuffer)
     = Thrown underflow_error CircularBuffer_default \<and>
   pop_front (CircularBuffer_default :: 'a CircularBuffer)
     = Thrown underflow_error CircularBuffer_default \<and>
   (\<forall>cb. get_capacity cb = 0 \<and> get_size cb = 0 \<longrightarrow>
      push_back cb x = Thrown overflow_error cb \<and>
      push_front cb x = Thrown overflow_error cb \<and>
      pop_back cb = Thrown underflow_error cb \<and>
      pop_front cb = Thrown underflow_error cb) \<and>
   CircularBuffer_capacity (dT::'a) 0 = Throws invalid_argument \<and>
   CircularBuffer_fill dT 0 x = Throws invalid_argument \<and>
   (\<forall>n cb. CircularBuffer_capacity dT n = Returns cb \<longrightarrow> get_capacity cb \<noteq> 0) \<and>
   (\<forall>n cb. CircularBuffer_fill dT n x = Returns cb \<longrightarrow> get_capacity cb \<noteq> 0) \<and>
   (\<forall>sizeof_T granted cb n cb'.
      set_capacity sizeof_T dT granted cb n = Done cb' \<longrightarrow> get_capacity cb' \<noteq> 0) \<and>
   (\<forall>cb cb'. CircularBuffer_copy dT cb = Returns cb' \<longrightarrow>
      get_capacity cb' = get_capacity cb) \<and>
   (\<forall>this cb cb'. assign dT False this cb = Done cb' \<longrightarrow>
      get_capacity cb' = get_capacity cb) \<and>
   (\<forall>cb cb' i j p.
      push_back cb x = Done cb' \<or> push_front cb x = Done cb' \<or> pop_back cb = Done cb' \<or>
      pop_front cb = Done cb' \<or> insert_cb cb i x = Done cb' \<or> erase cb i j = Done cb' \<or>
      resize cb i x = Done cb' \<or> rotate_cb dT cb i = Done cb' \<or>
      linearize dT cb = Done (p, cb') \<or> clear cb = cb' \<or> assign dT True cb cb = Done cb' \<longrightarrow>
      get_capacity cb' = get_capacity cb) \<and>
   (\<forall>a b. get_capacity (fst (swap a b)) = get_capacity a \<and>
          get_capacity (snd (swap a b)) = get_capacity (b :: 'a CircularBuffer))"
proof -
  have fill: "\<forall>n cb. CircularBuffer_fill dT n x = Returns cb \<longrightarrow> get_capacity cb \<noteq> 0"
    using fill_returns_capacity [of dT _ x] by (fastforce simp: get_capacity_def)
  have setc: "\<forall>sizeof_T granted cb n cb'.
      set_capacity sizeof_T dT granted cb n = Done cb' \<longrightarrow> get_capacity cb' \<noteq> 0"
    by (auto simp: set_capacity_def get_capacity_def split: if_splits option.splits)
  have ctor: "\<forall>n cb. CircularBuffer_capacity dT n = Returns cb \<longrightarrow> get_capacity cb \<noteq> 0"
    by (auto simp: CircularBuffer_capacity_def get_capacity_def split: if_splits)
  have copy: "\<forall>cb cb'. CircularBuffer_copy dT cb = Returns cb' \<longrightarrow>
      get_capacity cb' = get_capacity cb"
    by (simp add: get_capacity_def capacity_kept)
  have asg: "\<forall>this cb cb'. assign dT False this cb = Done cb' \<longrightarrow>
      get_capacity cb' = get_capacity cb"
    using capacity_kept(14) [of dT False] by (simp add: get_capacity_def)
  have kept: "\<forall>cb cb' i j p.
      push_back cb x = Done cb' \<or> push_front cb x = Done cb' \<or> pop_back cb = Done cb' \<or>
      pop_front cb = Done cb' \<or> insert_cb cb i x = Done cb' \<or> erase cb i j = Done cb' \<or>
      resize cb i x = Done cb' \<or> rotate_cb dT cb i = Done cb' \<or>
      linearize dT cb = Done (p, cb') \<or> clear cb = cb' \<or> assign dT True cb cb = Done cb' \<longrightarrow>
      get_capacity cb' = get_capacity cb"
    unfolding get_capacity_def
    by (intro allI impI) (elim disjE; (simp add: capacity_kept)?; auto simp: capacity_kept assign_def)
  have stay: "\<forall>cb. get_capacity cb = 0 \<and> get_size cb = 0 \<longrightarrow>
      push_back cb x = Thrown overflow_error cb \<and>
      push_front cb x = Thrown overflow_error cb \<and>
      pop_back cb = Thrown underflow_error cb \<and>
      pop_front cb = Thrown underflow_error cb"
    by (simp add: push_back_def push_front_def pop_back_def pop_front_def full_def
        empty_cb_def get_capacity_def get_size_def)
  have sw: "\<forall>a b. get_capacity (fst (swap a b)) = get_capacity a \<and>
          get_capacity (snd (swap a b)) = get_capacity (b :: 'a CircularBuffer)"
    by (simp add: swap_def get_capacity_def)
  have dflt: "get_capacity (CircularBuffer_default :: 'a CircularBuffer) = 0 \<and>
   get_size (CircularBuffer_default :: 'a CircularBuffer) = 0 \<and>
   empty_cb (CircularBuffer_default :: 'a CircularBuffer) \<and>
   full (CircularBuffer_default :: 'a CircularBuffer) \<and>
   reserve (CircularBuffer_default :: 'a CircularBuffer) = 0 \<and>
   push_back CircularBuffer_default (x::'a) = Thrown overflow_error CircularBuffer_default \<and>
   push_front CircularBuffer_default x = Thrown overflow_error CircularBuffer_default \<and>
   pop_back (CircularBuffer_default :: 'a CircularBuffer)
     = Thrown underflow_error CircularBuffer_default \<and>
   pop_front (CircularBuffer_default :: 'a CircularBuffer)
     = Thrown underflow_error CircularBuffer_default \<and>
   CircularBuffer_capacity (dT::'a) 0 = Throws invalid_argument \<and>
   CircularBuffer_fill dT 0 x = Throws invalid_argument"
    by (simp add: CircularBuffer_default_def CircularBuffer_capacity_def
        CircularBuffer_fill_def push_back_def push_front_def pop_back_def pop_front_def
        cb_defs)
  from dflt stay ctor fill setc copy asg kept sw show ?thesis
    by (intro conjI) blast+
qed

theorem default_buffer_permanently_empty_witness:
  "CircularBuffer_capacity (0::int) 5 =
     Returns \<lparr>capacity = 5, size_cb = 0, buffer = Some [0, 0, 0, 0, 0],
              start = - 1, end_cb = - 1\<rparr>
   \<and> get_capacity \<lparr>capacity = 5, size_cb = 0, buffer = Some [0, 0, 0, 0, 0::int],
              start = - 1, end_cb = - 1\<rparr> \<noteq> 0
   \<and> push_back CircularBuffer_default (1::int) = Thrown overflow_error CircularBuffer_default
   \<and> pop_front (CircularBuffer_default :: int CircularBuffer)
       = Thrown underflow_error CircularBuffer_default"
  using default_buffer_permanently_empty [where dT = "0::int" and x = "1::int"]
  by (simp add: CircularBuffer_capacity_def new_array_def eval_nat_numeral get_capacity_def)

end
